theory Spec2Isabelle
  imports Complex_Main "HOL-Library.Word" "HOL-Library.Stream"
begin

section \<open>Scalars, errors and containers\<close>

text \<open>
  The planner's statistics are C++ classes over \<^verbatim>\<open>double\<close>, \<^verbatim>\<open>unsigned\<close> counters and
  \<^verbatim>\<open>std::map\<close>. The embedding uses
  \<^item> the type \<open>double\<close> below for \<^verbatim>\<open>double\<close> and \<^verbatim>\<open>float\<close>: finite values, the negative zero,
    the two infinities and NaN, with the operations of IEEE 754 on them;
  \<^item> \<open>32 word\<close> for \<^verbatim>\<open>unsigned\<close> and \<^verbatim>\<open>unsigned int\<close>, so that \<open>+\<close> and \<open>-\<close> wrap
    around;
  \<^item> \<open>nat\<close> for \<^verbatim>\<open>ActionIdx\<close>, whose typedef is not among the sources and which is used
    as an index only;
  \<^item> a list of key-value pairs in ascending key order for \<^verbatim>\<open>std::map\<close>, which is iterated
    in key order;
  \<^item> a sum type for what throws: \<^verbatim>\<open>.at()\<close> on a missing key or index is \<open>OutOfRange\<close>, a
    failed \<^verbatim>\<open>MCTS_EXPECT_TRUE\<close> is \<open>ExpectFailed\<close>, a read the language leaves undefined
    is \<open>Undefined\<close>.
  C++ member names end in an underscore, which Isabelle does not accept at the end of
  a name; the model drops it (\<^verbatim>\<open>value_\<close> is \<open>node_value\<close>).
\<close>

type_synonym ActionIdx = nat
type_synonym u32 = "32 word"

datatype error = OutOfRange | ExpectFailed | Undefined

definition and_then :: "error + 'a \<Rightarrow> ('a \<Rightarrow> error + 'b) \<Rightarrow> error + 'b" where
  "and_then r f = (case r of Inl e \<Rightarrow> Inl e | Inr v \<Rightarrow> f v)"

type_synonym 'v std_map = "(nat \<times> 'v) list"

text \<open>\<^verbatim>\<open>m.at(k)\<close>: the value stored under \<open>k\<close>, or \<^verbatim>\<open>std::out_of_range\<close>.\<close>

fun map_at :: "'v std_map \<Rightarrow> nat \<Rightarrow> error + 'v" where
  "map_at [] k = Inl OutOfRange"
| "map_at ((k', v) # m) k = (if k = k' then Inr v else map_at m k)"

text \<open>\<^verbatim>\<open>m[k] = v\<close>: overwrite the entry of \<open>k\<close>, or insert it at its place in key order.\<close>

fun map_assign :: "nat \<Rightarrow> 'v \<Rightarrow> 'v std_map \<Rightarrow> 'v std_map" where
  "map_assign k v [] = [(k, v)]"
| "map_assign k v ((k', v') # m) =
     (if k < k' then (k, v) # (k', v') # m
      else if k = k' then (k, v) # m
      else (k', v') # map_assign k v m)"

text \<open>
  Reading \<^verbatim>\<open>m[k]\<close>: the stored value, or the default-constructed one \<open>d\<close> that
  \<^verbatim>\<open>operator[]\<close> inserts when the key is new.
\<close>

definition map_subscript :: "'v std_map \<Rightarrow> nat \<Rightarrow> 'v \<Rightarrow> 'v" where
  "map_subscript m k d = (case map_at m k of Inr v \<Rightarrow> v | Inl _ \<Rightarrow> d)"

abbreviation map_keys :: "'v std_map \<Rightarrow> nat list" where
  "map_keys m \<equiv> map fst m"

text \<open>The invariant of a \<^verbatim>\<open>std::map\<close>: keys strictly ascending, hence distinct.\<close>

abbreviation ordered :: "'v std_map \<Rightarrow> bool" where
  "ordered m \<equiv> sorted_wrt (<) (map_keys m)"

section \<open>Doubles\<close>

text \<open>
  A \<^verbatim>\<open>double\<close> is a finite number, the negative zero, an infinity or a NaN; \<open>Fin 0\<close> is the
  positive zero. The operations follow IEEE 754 in every case that involves a zero, an
  infinity or a NaN, and in the sign of a zero result. On finite values they are exact:
  rounding to 53 bits is not modelled, with two exceptions that concern the largest
  finite double \<^verbatim>\<open>std::numeric_limits<double>::max()\<close>, which the source uses as a
  stand-in for infinity:
  \<^item> a finite result of magnitude \<open>2^1024 - 2^970\<close> or more is an infinity (overflow:
    that bound is \<^verbatim>\<open>max()\<close> plus half the distance to the next power of two);
  \<^item> a sum of \<^verbatim>\<open>max()\<close> or \<^verbatim>\<open>-max()\<close> with a number of magnitude below \<open>2^970\<close> is that
    \<^verbatim>\<open>max()\<close> or \<^verbatim>\<open>-max()\<close> again (the smaller summand is rounded away).
\<close>

datatype double = Fin real | NegZero | PInf | NInf | NaN

type_synonym Reward = double
type_synonym Cost = double
type_synonym Probability = double

fun isnan :: "double \<Rightarrow> bool" where
  "isnan NaN = True"
| "isnan _ = False"

fun isinf :: "double \<Rightarrow> bool" where
  "isinf PInf = True"
| "isinf NInf = True"
| "isinf _ = False"

fun isfinite :: "double \<Rightarrow> bool" where
  "isfinite (Fin r) = True"
| "isfinite NegZero = True"
| "isfinite _ = False"

fun iszero :: "double \<Rightarrow> bool" where
  "iszero (Fin r) = (r = 0)"
| "iszero NegZero = True"
| "iszero _ = False"

fun signbit :: "double \<Rightarrow> bool" where
  "signbit (Fin r) = (r < 0)"
| "signbit NegZero = True"
| "signbit NInf = True"
| "signbit _ = False"

text \<open>The number a finite double stands for.\<close>

fun val :: "double \<Rightarrow> real" where
  "val (Fin r) = r"
| "val _ = 0"

definition zero_of :: "bool \<Rightarrow> double" where
  "zero_of negative = (if negative then NegZero else Fin 0)"

definition inf_of :: "bool \<Rightarrow> double" where
  "inf_of negative = (if negative then NInf else PInf)"

text \<open>\<^verbatim>\<open>std::numeric_limits<double>::max()\<close>.\<close>

definition DBL_MAX :: real where
  "DBL_MAX = (2 - 1 / 2 ^ 52) * 2 ^ 1023"

definition overflow_limit :: real where
  "overflow_limit = 2 ^ 1024 - 2 ^ 970"

definition absorption_limit :: real where
  "absorption_limit = 2 ^ 970"

text \<open>A non-zero exact result as a double.\<close>

definition overflow :: "real \<Rightarrow> double" where
  "overflow r = (if r \<ge> overflow_limit then PInf
                 else if r \<le> - overflow_limit then NInf else Fin r)"

fun dneg :: "double \<Rightarrow> double" where
  "dneg (Fin r) = (if r = 0 then NegZero else Fin (- r))"
| "dneg NegZero = Fin 0"
| "dneg PInf = NInf"
| "dneg NInf = PInf"
| "dneg NaN = NaN"

text \<open>
  \<open>a + b\<close>. The sum of two zeros is negative only if both are; a sum of two opposite
  numbers is the positive zero.
\<close>

definition dadd :: "double \<Rightarrow> double \<Rightarrow> double" where
  "dadd a b =
     (if isnan a \<or> isnan b then NaN
      else if isinf a then (if isinf b \<and> a \<noteq> b then NaN else a)
      else if isinf b then b
      else if iszero a \<and> iszero b then (if a = NegZero \<and> b = NegZero then NegZero else Fin 0)
      else if iszero a then b
      else if iszero b then a
      else if \<bar>val b\<bar> = DBL_MAX \<and> \<bar>val a\<bar> < absorption_limit then b
      else if \<bar>val a\<bar> = DBL_MAX \<and> \<bar>val b\<bar> < absorption_limit then a
      else overflow (val a + val b))"

definition dsub :: "double \<Rightarrow> double \<Rightarrow> double" where
  "dsub a b = dadd a (dneg b)"

text \<open>\<open>a * b\<close>: the sign of the result is the exclusive or of the signs; \<open>0 * \<infinity>\<close> is a NaN.\<close>

definition dmul :: "double \<Rightarrow> double \<Rightarrow> double" where
  "dmul a b =
     (if isnan a \<or> isnan b then NaN
      else if isinf a \<or> isinf b
      then (if iszero a \<or> iszero b then NaN else inf_of (signbit a \<noteq> signbit b))
      else if val a * val b = 0 then zero_of (signbit a \<noteq> signbit b)
      else overflow (val a * val b))"

text \<open>
  \<open>a / b\<close>: \<open>0 / 0\<close> and \<open>\<infinity> / \<infinity>\<close> are NaNs, a non-zero number over a zero is an infinity
  whose sign is the exclusive or of the signs.
\<close>

definition ddiv :: "double \<Rightarrow> double \<Rightarrow> double" where
  "ddiv a b =
     (if isnan a \<or> isnan b then NaN
      else if isinf a then (if isinf b then NaN else inf_of (signbit a \<noteq> signbit b))
      else if isinf b then zero_of (signbit a \<noteq> signbit b)
      else if iszero b then (if iszero a then NaN else inf_of (signbit a \<noteq> signbit b))
      else if val a / val b = 0 then zero_of (signbit a \<noteq> signbit b)
      else overflow (val a / val b))"

text \<open>
  The comparisons \<open>a < b\<close> and \<open>a \<le> b\<close>: false as soon as one side is a NaN; the two
  zeros are equal.
\<close>

definition dlt :: "double \<Rightarrow> double \<Rightarrow> bool" where
  "dlt a b =
     (\<not> isnan a \<and> \<not> isnan b \<and>
      ((a = NInf \<and> b \<noteq> NInf) \<or> (b = PInf \<and> a \<noteq> PInf) \<or>
       (isfinite a \<and> isfinite b \<and> val a < val b)))"

definition dle :: "double \<Rightarrow> double \<Rightarrow> bool" where
  "dle a b =
     (\<not> isnan a \<and> \<not> isnan b \<and>
      (a = NInf \<or> b = PInf \<or> (isfinite a \<and> isfinite b \<and> val a \<le> val b)))"

abbreviation dgt :: "double \<Rightarrow> double \<Rightarrow> bool" where
  "dgt a b \<equiv> dlt b a"

abbreviation dge :: "double \<Rightarrow> double \<Rightarrow> bool" where
  "dge a b \<equiv> dle b a"

text \<open>\<^verbatim>\<open>std::abs\<close>, \<^verbatim>\<open>sqrt\<close> and \<^verbatim>\<open>log\<close>.\<close>

fun dabs :: "double \<Rightarrow> double" where
  "dabs (Fin r) = Fin \<bar>r\<bar>"
| "dabs NegZero = Fin 0"
| "dabs PInf = PInf"
| "dabs NInf = PInf"
| "dabs NaN = NaN"

fun dsqrt :: "double \<Rightarrow> double" where
  "dsqrt (Fin r) = (if r < 0 then NaN else Fin (sqrt r))"
| "dsqrt NegZero = NegZero"
| "dsqrt PInf = PInf"
| "dsqrt NInf = NaN"
| "dsqrt NaN = NaN"

fun dlog :: "double \<Rightarrow> double" where
  "dlog (Fin r) = (if r < 0 then NaN else if r = 0 then NInf else Fin (ln r))"
| "dlog NegZero = NInf"
| "dlog PInf = PInf"
| "dlog NInf = NaN"
| "dlog NaN = NaN"

text \<open>
  \<^verbatim>\<open>std::min(a, b)\<close> is \<^verbatim>\<open>(b < a) ? b : a\<close> and \<^verbatim>\<open>std::max(a, b)\<close> is \<^verbatim>\<open>(a < b) ? b : a\<close>:
  both return their first argument when the comparison fails on a NaN.
\<close>

definition std_min :: "double \<Rightarrow> double \<Rightarrow> double" where
  "std_min a b = (if dlt b a then b else a)"

definition std_max :: "double \<Rightarrow> double \<Rightarrow> double" where
  "std_max a b = (if dlt a b then b else a)"

text \<open>
  The values a variable of type \<^verbatim>\<open>double\<close> holds when it is finite: \<open>Fin r\<close> with \<open>r\<close>
  beyond \<^verbatim>\<open>max()\<close> is no double.
\<close>

definition finite_double :: "double \<Rightarrow> bool" where
  "finite_double d = (isfinite d \<and> \<bar>val d\<bar> \<le> DBL_MAX)"

text \<open>
  Two doubles are the same up to the sign of a zero: the same bit pattern, or two zeros.
\<close>

definition same_double :: "double \<Rightarrow> double \<Rightarrow> bool" where
  "same_double a b = (a = b \<or> (iszero a \<and> iszero b))"

text \<open>The conversion of an \<^verbatim>\<open>unsigned\<close> to a floating-point number.\<close>

definition of_u32 :: "u32 \<Rightarrow> double" where
  "of_u32 n = Fin (real (unat n))"

section \<open>The crossing-state test domain\<close>

text \<open>
  \<^verbatim>\<open>src/test/hypothesis/hypothesis_crossing_state.h\<close>. \<^verbatim>\<open>calculate_action\<close> returns an
  \<^verbatim>\<open>ActionIdx\<close> converted from one of the three enumerators; the three convert to three
  distinct values, so the model keeps the enumerator.
\<close>

datatype Actions = WAIT | FORWARD | BACKWARD

text \<open>
  Both arguments are \<^verbatim>\<open>unsigned int\<close>: the difference is taken modulo \<open>2^32\<close> and compared
  with \<open>0\<close> as an unsigned value.
\<close>

definition calculate_action :: "u32 \<Rightarrow> u32 \<Rightarrow> Actions" where
  "calculate_action ego_distance desired_gap_dst =
     (if ego_distance - desired_gap_dst > 0 then FORWARD
      else if ego_distance - desired_gap_dst = 0 then WAIT
      else BACKWARD)"

text \<open>\<^verbatim>\<open>std::vector<unsigned int> v(n); std::iota(v.begin(), v.end(), first)\<close>.\<close>

definition iota :: "u32 \<Rightarrow> u32 \<Rightarrow> u32 list" where
  "iota n first = map (\<lambda>i. first + of_nat i) [0..<unat n]"

text \<open>The loop of \<^verbatim>\<open>get_probability\<close>, with the counter \<^verbatim>\<open>action_selected\<close> as accumulator.\<close>

fun count_selected :: "u32 \<Rightarrow> Actions \<Rightarrow> u32 list \<Rightarrow> u32 \<Rightarrow> u32" where
  "count_selected ego_distance action [] action_selected = action_selected"
| "count_selected ego_distance action (desired_gap_dst # rest) action_selected =
     count_selected ego_distance action rest
       (if calculate_action ego_distance desired_gap_dst = action
        then action_selected + 1 else action_selected)"

text \<open>
  \<^verbatim>\<open>get_probability\<close> returns the quotient of the counter and the size of the vector,
  both converted to \<^verbatim>\<open>float\<close>; with an empty vector that is \<open>0.0f / 0.0f\<close>.
\<close>

definition get_probability :: "u32 \<times> u32 \<Rightarrow> u32 \<Rightarrow> Actions \<Rightarrow> Probability" where
  "get_probability desired_gap_range ego_distance action =
     (let n = snd desired_gap_range - fst desired_gap_range + 1;
          gap_distances = iota n (fst desired_gap_range);
          action_selected = count_selected ego_distance action gap_distances 0
      in ddiv (of_u32 action_selected) (of_u32 n))"

record AgentState =
  x_pos :: u32
  last_action :: Actions

text \<open>
  \<^verbatim>\<open>HypothesisCrossingState\<close>: each hypothesis is an \<^verbatim>\<open>AgentPolicyCrossingState\<close>, that is
  its desired gap range; \<^verbatim>\<open>other_agent_states_\<close> is a \<^verbatim>\<open>std::array\<close> of one element.
\<close>

record HypothesisCrossingState =
  hypothesis :: "(u32 \<times> u32) list"
  other_agent_states :: "AgentState list"
  ego_state :: AgentState

text \<open>\<^verbatim>\<open>dst_to_ego\<close>: unsigned subtraction; indexing the array out of range is undefined.\<close>

definition dst_to_ego :: "HypothesisCrossingState \<Rightarrow> nat \<Rightarrow> error + u32" where
  "dst_to_ego s other_agent_idx =
     (if other_agent_idx < length (other_agent_states s)
      then Inr (x_pos (ego_state s) - x_pos (other_agent_states s ! other_agent_idx))
      else Inl Undefined)"

text \<open>
  \<^verbatim>\<open>HypothesisCrossingState::get_probability\<close>: \<^verbatim>\<open>hypothesis_.at(h)\<close> throws on a missing
  hypothesis; the distance is \<^verbatim>\<open>dst_to_ego(agent_idx - 1)\<close>, and agent \<open>0\<close> is the ego agent,
  for which the index \<open>agent_idx - 1\<close> is outside the array.
\<close>

definition state_get_probability ::
  "HypothesisCrossingState \<Rightarrow> nat \<Rightarrow> nat \<Rightarrow> Actions \<Rightarrow> error + Probability" where
  "state_get_probability s h agent_idx action =
     (if h < length (hypothesis s)
      then (if agent_idx = 0 then Inl Undefined
            else and_then (dst_to_ego s (agent_idx - 1))
                   (\<lambda>d. Inr (get_probability (hypothesis s ! h) d action)))
      else Inl OutOfRange)"

text \<open>A crossing state with one hypothesis and the other agent three cells behind the ego agent.\<close>

definition crossing_example :: HypothesisCrossingState where
  "crossing_example = \<lparr>hypothesis = [(1, 3)],
     other_agent_states = [\<lparr>x_pos = 4, last_action = WAIT\<rparr>],
     ego_state = \<lparr>x_pos = 7, last_action = FORWARD\<rparr>\<rparr>"

section \<open>The UCT statistic\<close>

text \<open>\<^verbatim>\<open>src/mcts/statistics/uct_statistic.h\<close>.\<close>

record UcbPair =
  action_count :: u32
  action_value :: double

definition UcbPair_init :: UcbPair where
  "UcbPair_init = \<lparr>action_count = 0, action_value = Fin 0\<rparr>"

type_synonym UcbStatistics = "UcbPair std_map"

text \<open>
  \<open>collected_reward\<close> is a member of the base class \<^verbatim>\<open>NodeStatistic\<close>, whose declaration is
  not among the sources: the action taken at the node and the reward collected on that
  edge. The tree driver writes it before it calls an update.
\<close>

record UctStatistic =
  collected_reward :: "ActionIdx \<times> Reward"
  node_value :: double
  latest_return :: double
  ucb_statistics :: UcbStatistics
  total_node_visits :: u32
  upper_bound :: double
  lower_bound :: double
  k_discount_factor :: double

text \<open>The loop of \<^verbatim>\<open>get_best_action\<close> over the map in key order.\<close>

fun best_loop :: "UcbStatistics \<Rightarrow> double \<times> ActionIdx \<Rightarrow> double \<times> ActionIdx" where
  "best_loop [] (temp, best) = (temp, best)"
| "best_loop ((a, p) # rest) (temp, best) =
     (if dgt (action_value p) temp then best_loop rest (action_value p, a)
      else best_loop rest (temp, best))"

text \<open>
  \<^verbatim>\<open>get_best_action\<close> reads \<^verbatim>\<open>ucb_statistics_.begin()\<close> before the loop: on an empty map
  that is a dereference of \<^verbatim>\<open>end()\<close>, which is undefined, so the model returns \<open>None\<close>.
\<close>

definition get_best_action :: "UctStatistic \<Rightarrow> ActionIdx option" where
  "get_best_action s =
     (case ucb_statistics s of
        [] \<Rightarrow> None
      | (a0, p0) # _ \<Rightarrow> Some (snd (best_loop (ucb_statistics s) (action_value p0, a0))))"

text \<open>
  \<^verbatim>\<open>update_from_heuristic_from_backpropagated\<close>: the heuristic value of a new leaf. It
  counts a visit of the node and touches no action counter.
\<close>

definition update_from_heuristic_from_backpropagated :: "Reward \<Rightarrow> UctStatistic \<Rightarrow> UctStatistic" where
  "update_from_heuristic_from_backpropagated backpropagated s =
     s\<lparr>node_value := backpropagated,
       latest_return := backpropagated,
       total_node_visits := total_node_visits s + 1\<rparr>"

text \<open>
  \<^verbatim>\<open>update_statistics_from_backpropagated\<close>. \<^verbatim>\<open>ucb_statistics_[a]\<close> is the stored pair or
  a fresh \<^verbatim>\<open>UcbPair()\<close>. Both running means divide by a counter that was just incremented;
  when the counter has wrapped around to \<open>0\<close> the quotient is an infinity or a NaN, which
  is stored like any other value.
\<close>

definition update_statistics_from_backpropagated :: "Reward \<Rightarrow> UctStatistic \<Rightarrow> UctStatistic" where
  "update_statistics_from_backpropagated backpropagated s =
     (let a = fst (collected_reward s);
          ucb_pair = map_subscript (ucb_statistics s) a UcbPair_init;
          latest = dadd (snd (collected_reward s)) (dmul (k_discount_factor s) backpropagated);
          n = action_count ucb_pair + 1;
          visits = total_node_visits s + 1
      in s\<lparr>latest_return := latest,
           ucb_statistics :=
             map_assign a
               \<lparr>action_count = n,
                action_value = dadd (action_value ucb_pair)
                                 (ddiv (dsub latest (action_value ucb_pair)) (of_u32 n))\<rparr>
               (ucb_statistics s),
           total_node_visits := visits,
           node_value := dadd (node_value s) (ddiv (dsub latest (node_value s)) (of_u32 visits))\<rparr>)"

definition set_heuristic_estimate_from_backpropagated :: "Reward \<Rightarrow> UctStatistic \<Rightarrow> UctStatistic" where
  "set_heuristic_estimate_from_backpropagated backpropagated s = s\<lparr>node_value := backpropagated\<rparr>"

text \<open>
  \<^verbatim>\<open>get_normalized_ucb_value\<close>. The macro \<^verbatim>\<open>MCTS_EXPECT_TRUE\<close> is not among the sources;
  the model takes a failed expectation as an error. With equal bounds the quotient is an
  infinity or a NaN, which fails one of the two expectations.
\<close>

definition get_normalized_ucb_value :: "UctStatistic \<Rightarrow> ActionIdx \<Rightarrow> error + double" where
  "get_normalized_ucb_value s action =
     and_then (map_at (ucb_statistics s) action) (\<lambda>p.
       let action_value_normalized =
             ddiv (dsub (action_value p) (lower_bound s)) (dsub (upper_bound s) (lower_bound s))
       in if dge action_value_normalized (Fin 0) \<and> dle action_value_normalized (Fin 1)
          then Inr action_value_normalized else Inl ExpectFailed)"

text \<open>The sum of the action counters of a map, in the counters' own arithmetic.\<close>

definition sum_counts :: "UcbStatistics \<Rightarrow> u32" where
  "sum_counts m = sum_list (map (\<lambda>(a, p). action_count p) m)"


section \<open>Parameters and construction\<close>

text \<open>
  The fields of \<^verbatim>\<open>MctsParameters\<close> that the statistics read; the struct's declaration is
  not among the sources. \<open>UPPER_BOUND\<close> and \<open>LOWER_BOUND\<close> are the fields of its
  \<^verbatim>\<open>uct_statistic\<close> part, the fields from \<open>LAMBDA\<close> on those of its
  \<^verbatim>\<open>cost_constrained_statistic\<close> part.
\<close>

record MctsParameters =
  DISCOUNT_FACTOR :: double
  UPPER_BOUND :: double
  LOWER_BOUND :: double
  LAMBDA :: double
  KAPPA :: double
  ACTION_FILTER_FACTOR :: double
  COST_CONSTRAINT :: double
  COST_LOWER_BOUND :: double
  COST_UPPER_BOUND :: double
  REWARD_LOWER_BOUND :: double
  REWARD_UPPER_BOUND :: double
  GRADIENT_UPDATE_STEP :: double
  TAU_GRADIENT_CLIP :: double

definition make_cost_statistic_parameters :: "MctsParameters \<Rightarrow> MctsParameters" where
  "make_cost_statistic_parameters mcts_parameters =
     mcts_parameters\<lparr>LOWER_BOUND := COST_LOWER_BOUND mcts_parameters,
                     UPPER_BOUND := COST_UPPER_BOUND mcts_parameters,
                     DISCOUNT_FACTOR := Fin 1\<rparr>"

definition make_reward_statistic_parameters :: "MctsParameters \<Rightarrow> MctsParameters" where
  "make_reward_statistic_parameters mcts_parameters =
     mcts_parameters\<lparr>LOWER_BOUND := REWARD_LOWER_BOUND mcts_parameters,
                     UPPER_BOUND := REWARD_UPPER_BOUND mcts_parameters\<rparr>"

text \<open>
  The constructor of \<^verbatim>\<open>UctStatistic\<close>, for the members modelled here. The base class's
  constructor is not among the sources; the pair it starts with comes as \<open>collected\<close>.
\<close>

definition UctStatistic_init :: "ActionIdx \<times> double \<Rightarrow> MctsParameters \<Rightarrow> UctStatistic" where
  "UctStatistic_init collected mcts_parameters =
     \<lparr>collected_reward = collected,
      node_value = Fin 0,
      latest_return = Fin 0,
      ucb_statistics = [],
      total_node_visits = 0,
      upper_bound = UPPER_BOUND mcts_parameters,
      lower_bound = LOWER_BOUND mcts_parameters,
      k_discount_factor = DISCOUNT_FACTOR mcts_parameters\<rparr>"

section \<open>The cost-constrained statistic\<close>

text \<open>
  \<^verbatim>\<open>src/mcts/cost_constrained/cost_constrained_statistic.h\<close>. A \<^verbatim>\<open>Policy\<close> maps actions to
  probabilities. \<open>lambda\<close> is a reference into the parameter object in the source; the
  field holds the value read through it. Functions and base-class members that exist in
  both classes carry the prefix \<open>cc_\<close> here.
\<close>

type_synonym Policy = "double std_map"

record CostConstrainedStatistic =
  cc_collected_reward :: "ActionIdx \<times> Reward"
  cc_collected_cost :: "ActionIdx \<times> Cost"
  reward_statistic :: UctStatistic
  cost_statistic :: UctStatistic
  unexpanded_actions :: "ActionIdx list"
  mean_step_costs :: "Cost std_map"
  lambda :: double
  kappa :: double
  action_filter_factor :: double
  cost_constraint :: double

definition CostConstrainedStatistic_init ::
  "ActionIdx \<times> double \<Rightarrow> nat \<Rightarrow> MctsParameters \<Rightarrow> CostConstrainedStatistic" where
  "CostConstrainedStatistic_init collected num_actions mcts_parameters =
     \<lparr>cc_collected_reward = collected,
      cc_collected_cost = collected,
      reward_statistic =
        UctStatistic_init collected (make_reward_statistic_parameters mcts_parameters),
      cost_statistic =
        UctStatistic_init collected (make_cost_statistic_parameters mcts_parameters),
      unexpanded_actions = [0..<num_actions],
      mean_step_costs = map (\<lambda>action. (action, Fin 0)) [0..<num_actions],
      lambda = LAMBDA mcts_parameters,
      kappa = KAPPA mcts_parameters,
      action_filter_factor = ACTION_FILTER_FACTOR mcts_parameters,
      cost_constraint = COST_CONSTRAINT mcts_parameters\<rparr>"

definition policy_is_ready :: "CostConstrainedStatistic \<Rightarrow> bool" where
  "policy_is_ready s = (unexpanded_actions s = [])"

text \<open>\<^verbatim>\<open>CostConstrainedStatistic::update_from_heuristic\<close>.\<close>

definition cc_update_from_heuristic ::
  "CostConstrainedStatistic \<Rightarrow> CostConstrainedStatistic \<Rightarrow> CostConstrainedStatistic" where
  "cc_update_from_heuristic heuristic_statistic s =
     (let heuristic_reward_value = node_value (reward_statistic heuristic_statistic);
          heuristic_cost_value = node_value (cost_statistic heuristic_statistic)
      in s\<lparr>reward_statistic :=
             update_from_heuristic_from_backpropagated heuristic_reward_value (reward_statistic s),
           cost_statistic :=
             update_from_heuristic_from_backpropagated heuristic_cost_value (cost_statistic s)\<rparr>)"

text \<open>
  \<^verbatim>\<open>CostConstrainedStatistic::update_statistic\<close>. The reward statistic is updated under
  \<^verbatim>\<open>collected_reward_\<close>, the cost statistic under \<^verbatim>\<open>collected_cost_\<close>, then the mean step
  cost of the action of \<^verbatim>\<open>collected_cost_\<close> moves towards the collected cost. The copy of
  \<^verbatim>\<open>collected_action_transition_counts_\<close>, which none of the functions modelled here reads,
  is left out.
\<close>

definition cc_update_statistic ::
  "CostConstrainedStatistic \<Rightarrow> CostConstrainedStatistic \<Rightarrow> CostConstrainedStatistic" where
  "cc_update_statistic changed_child_statistic s =
     (let reward_latest_return = latest_return (reward_statistic changed_child_statistic);
          r = update_statistics_from_backpropagated reward_latest_return
                ((reward_statistic s)\<lparr>collected_reward := cc_collected_reward s\<rparr>);
          cost_latest_return = latest_return (cost_statistic changed_child_statistic);
          c = update_statistics_from_backpropagated cost_latest_return
                ((cost_statistic s)\<lparr>collected_reward := cc_collected_cost s\<rparr>);
          a = fst (cc_collected_cost s);
          mean = map_subscript (mean_step_costs s) a (Fin 0);
          n = action_count (map_subscript (ucb_statistics c) a UcbPair_init)
      in s\<lparr>reward_statistic := r,
           cost_statistic := c,
           mean_step_costs :=
             map_assign a (dadd mean (ddiv (dsub (snd (cc_collected_cost s)) mean) (of_u32 n)))
               (mean_step_costs s)\<rparr>)"

definition cc_set_heuristic_estimate ::
  "Reward \<Rightarrow> Cost \<Rightarrow> CostConstrainedStatistic \<Rightarrow> CostConstrainedStatistic" where
  "cc_set_heuristic_estimate accum_rewards accum_ego_cost s =
     s\<lparr>reward_statistic :=
         set_heuristic_estimate_from_backpropagated accum_rewards (reward_statistic s),
       cost_statistic :=
         set_heuristic_estimate_from_backpropagated accum_ego_cost (cost_statistic s)\<rparr>"


text \<open>
  What happens to one node in the backpropagation phase: the driver stores the collected
  reward and cost of the edge taken, a new leaf takes its heuristic value, an inner node
  is updated from its changed child.
\<close>

datatype step =
  SetCollected "ActionIdx \<times> Reward" "ActionIdx \<times> Cost"
| UpdateFromHeuristic CostConstrainedStatistic
| UpdateStatistic CostConstrainedStatistic

fun apply_step :: "step \<Rightarrow> CostConstrainedStatistic \<Rightarrow> CostConstrainedStatistic" where
  "apply_step (SetCollected r c) s = s\<lparr>cc_collected_reward := r, cc_collected_cost := c\<rparr>"
| "apply_step (UpdateFromHeuristic h) s = cc_update_from_heuristic h s"
| "apply_step (UpdateStatistic child) s = cc_update_statistic child s"

fun run :: "step list \<Rightarrow> CostConstrainedStatistic \<Rightarrow> CostConstrainedStatistic" where
  "run [] s = s"
| "run (x # xs) s = run xs (apply_step x s)"


section \<open>The greedy policy\<close>

text \<open>
  \<^verbatim>\<open>RandomGenerator::random_generator_\<close> is one \<^verbatim>\<open>std::mt19937\<close> for the whole process. The
  statistic reads it through \<^verbatim>\<open>std::uniform_real_distribution<double>(0, 1)\<close> only; its
  state is modelled as the stream of the (finite) samples it is going to deliver, and a
  draw takes the head of the stream.
\<close>

type_synonym rng = "real stream"

text \<open>
  \<open>kappa_local * sqrt(log(N) / n)\<close> with the counters \<open>N\<close> and \<open>n\<close> converted to
  \<^verbatim>\<open>double\<close>. By the rules above \<open>log(0)\<close> is \<open>-\<infinity>\<close> and its root a NaN, \<open>0 / 0\<close> is a NaN,
  and for \<open>n = 0\<close>, \<open>N > 1\<close> the root is \<open>+\<infinity>\<close>, which \<open>kappa_local\<close> turns into a NaN when
  it is zero and into an infinity otherwise.
\<close>

definition exploration_term :: "double \<Rightarrow> u32 \<Rightarrow> u32 \<Rightarrow> double" where
  "exploration_term kappa_local N n = dmul kappa_local (dsqrt (ddiv (dlog (of_u32 N)) (of_u32 n)))"

text \<open>The loop of \<^verbatim>\<open>calculate_ucb_values\<close> over the indices it still has to visit.\<close>

fun ucb_values_loop :: "CostConstrainedStatistic \<Rightarrow> double \<Rightarrow> nat list \<Rightarrow> error + double list" where
  "ucb_values_loop s kappa_local [] = Inr []"
| "ucb_values_loop s kappa_local (idx # rest) =
     and_then (get_normalized_ucb_value (cost_statistic s) idx) (\<lambda>cost_value_normalized.
     and_then (get_normalized_ucb_value (reward_statistic s) idx) (\<lambda>reward_value_normalized.
     and_then (map_at (ucb_statistics (reward_statistic s)) idx) (\<lambda>p.
       let exploration =
             exploration_term kappa_local (total_node_visits (reward_statistic s)) (action_count p)
       in and_then (ucb_values_loop s kappa_local rest) (\<lambda>values.
            Inr (dadd (dsub reward_value_normalized (dmul (lambda s) cost_value_normalized))
                      (if isnan exploration then Fin DBL_MAX else exploration)
                 # values)))))"

definition calculate_ucb_values :: "CostConstrainedStatistic \<Rightarrow> double \<Rightarrow> error + double list" where
  "calculate_ucb_values s kappa_local =
     (let reward_stats = ucb_statistics (reward_statistic s);
          cost_stats = ucb_statistics (cost_statistic s)
      in if length reward_stats \<noteq> length cost_stats then Inl ExpectFailed
         else ucb_values_loop s kappa_local [0..<length reward_stats])"

text \<open>
  \<^verbatim>\<open>std::max_element\<close> followed by \<^verbatim>\<open>std::distance\<close>: the index of the first element that
  no later one exceeded in the comparison \<open><\<close> (\<open>0\<close> for the empty vector, where
  \<^verbatim>\<open>max_element\<close> returns \<^verbatim>\<open>end()\<close>).
\<close>

fun max_element_from :: "nat \<Rightarrow> double \<Rightarrow> nat \<Rightarrow> double list \<Rightarrow> nat" where
  "max_element_from largest largest_val i [] = largest"
| "max_element_from largest largest_val i (x # xs) =
     (if dlt largest_val x then max_element_from i x (Suc i) xs
      else max_element_from largest largest_val (Suc i) xs)"

definition max_element :: "double list \<Rightarrow> nat" where
  "max_element values = (case values of [] \<Rightarrow> 0 | x # xs \<Rightarrow> max_element_from 0 x 1 xs)"

text \<open>\<open>sqrt(log(n) / n)\<close> for a counter \<open>n\<close>.\<close>

definition node_count_term :: "u32 \<Rightarrow> double" where
  "node_count_term n = dsqrt (ddiv (dlog (of_u32 n)) (of_u32 n))"

text \<open>The loop of \<^verbatim>\<open>filter_feasible_actions\<close>.\<close>

fun filter_loop ::
  "CostConstrainedStatistic \<Rightarrow> double list \<Rightarrow> double \<Rightarrow> double \<Rightarrow> double \<Rightarrow> nat list
     \<Rightarrow> error + ActionIdx list"
where
  "filter_loop s values max_val node_counts_maximizing factor [] = Inr []"
| "filter_loop s values max_val node_counts_maximizing factor (action_idx # rest) =
     and_then (map_at (ucb_statistics (reward_statistic s)) action_idx) (\<lambda>p.
       let value_difference = dabs (dsub (values ! action_idx) max_val);
           node_count_relations =
             (if action_count p = 0 then Fin DBL_MAX
              else dadd (node_count_term (action_count p)) node_counts_maximizing)
       in and_then (filter_loop s values max_val node_counts_maximizing factor rest)
            (\<lambda>filtered_actions.
               Inr (if dle value_difference (dmul factor node_count_relations)
                    then action_idx # filtered_actions else filtered_actions)))"

text \<open>
  \<^verbatim>\<open>filter_feasible_actions\<close>. On an empty vector \<^verbatim>\<open>values[maximizing_action]\<close> reads
  outside the vector.
\<close>

definition filter_feasible_actions ::
  "CostConstrainedStatistic \<Rightarrow> double list \<Rightarrow> double \<Rightarrow> error + ActionIdx list" where
  "filter_feasible_actions s values action_filter_factor_local =
     (if values = [] then Inl Undefined
      else let maximizing_action = max_element values;
               max_val = values ! maximizing_action
           in and_then (map_at (ucb_statistics (reward_statistic s)) maximizing_action) (\<lambda>pm.
                let node_counts_maximizing =
                      (if action_count pm = 0 then Fin DBL_MAX
                       else node_count_term (action_count pm))
                in filter_loop s values max_val node_counts_maximizing
                     action_filter_factor_local [0..<length values]))"

text \<open>
  The first loop of \<^verbatim>\<open>solve_LP_and_sample\<close>: the feasible actions of largest and of
  smallest cost estimate. Every comparison reads the map with \<^verbatim>\<open>.at()\<close>.
\<close>

fun extremes_loop ::
  "UcbStatistics \<Rightarrow> ActionIdx list \<Rightarrow> ActionIdx \<times> ActionIdx \<Rightarrow> error + ActionIdx \<times> ActionIdx"
where
  "extremes_loop cost_stats [] (maximizing_action, minimizing_action) =
     Inr (maximizing_action, minimizing_action)"
| "extremes_loop cost_stats (feasible_action # rest) (maximizing_action, minimizing_action) =
     and_then (map_at cost_stats feasible_action) (\<lambda>pf.
     and_then (map_at cost_stats maximizing_action) (\<lambda>pmax.
       if dgt (action_value pf) (action_value pmax)
       then extremes_loop cost_stats rest (feasible_action, minimizing_action)
       else and_then (map_at cost_stats minimizing_action) (\<lambda>pmin.
              if dlt (action_value pf) (action_value pmin)
              then extremes_loop cost_stats rest (maximizing_action, feasible_action)
              else extremes_loop cost_stats rest (maximizing_action, minimizing_action))))"

text \<open>The policy that gives every action of the cost map the probability \<open>0\<close>.\<close>

definition zero_policy :: "UcbStatistics \<Rightarrow> Policy" where
  "zero_policy cost_stats = map (\<lambda>(a, p). (a, Fin 0)) cost_stats"

text \<open>
  \<^verbatim>\<open>solve_LP_and_sample\<close> returns the selected action and the policy; the model returns the
  generator as well. Only the last of the three cases draws a sample.
\<close>

definition solve_LP_and_sample ::
  "CostConstrainedStatistic \<Rightarrow> ActionIdx list \<Rightarrow> rng \<Rightarrow> error + (ActionIdx \<times> Policy) \<times> rng" where
  "solve_LP_and_sample s feasible_actions random_generator =
     (let cost_stats = ucb_statistics (cost_statistic s)
      in case feasible_actions of
           [] \<Rightarrow> Inl OutOfRange
         | first # _ \<Rightarrow>
             and_then (extremes_loop cost_stats feasible_actions (first, first))
               (\<lambda>(maximizing_action, minimizing_action).
                  let stochastic_policy = zero_policy cost_stats
                  in if minimizing_action = maximizing_action
                     then Inr ((minimizing_action,
                                map_assign minimizing_action (Fin 1) stochastic_policy),
                               random_generator)
                     else
                       and_then (map_at cost_stats maximizing_action) (\<lambda>pmax.
                       and_then (map_at cost_stats minimizing_action) (\<lambda>pmin.
                         let max_val = action_value pmax;
                             min_val = action_value pmin
                         in if dge min_val (cost_constraint s)
                            then Inr ((minimizing_action,
                                       map_assign minimizing_action (Fin 1) stochastic_policy),
                                      random_generator)
                            else if dle max_val (cost_constraint s)
                            then Inr ((maximizing_action,
                                       map_assign maximizing_action (Fin 1) stochastic_policy),
                                      random_generator)
                            else
                              let probability_maximizer =
                                    ddiv (dsub (cost_constraint s) min_val) (dsub max_val min_val);
                                  policy =
                                    map_assign minimizing_action
                                      (dsub (Fin 1) probability_maximizer)
                                      (map_assign maximizing_action probability_maximizer
                                         stochastic_policy);
                                  sample = Fin (shd random_generator)
                              in if dle sample probability_maximizer
                                 then Inr ((maximizing_action, policy), stl random_generator)
                                 else Inr ((minimizing_action, policy), stl random_generator)))))"

definition greedy_policy ::
  "CostConstrainedStatistic \<Rightarrow> double \<Rightarrow> double \<Rightarrow> rng \<Rightarrow> error + (ActionIdx \<times> Policy) \<times> rng" where
  "greedy_policy s kappa_local action_filter_factor_local random_generator =
     and_then (calculate_ucb_values s kappa_local) (\<lambda>ucb_values.
     and_then (filter_feasible_actions s ucb_values action_filter_factor_local)
       (\<lambda>feasible_actions.
          solve_LP_and_sample s feasible_actions random_generator))"

definition cc_get_policy :: "CostConstrainedStatistic \<Rightarrow> rng \<Rightarrow> error + Policy \<times> rng" where
  "cc_get_policy s random_generator =
     and_then (greedy_policy s (Fin 0) (action_filter_factor s) random_generator)
       (\<lambda>(sampled, g). Inr (snd sampled, g))"

definition cc_get_best_action :: "CostConstrainedStatistic \<Rightarrow> rng \<Rightarrow> error + ActionIdx \<times> rng" where
  "cc_get_best_action s random_generator =
     and_then (greedy_policy s (Fin 0) (action_filter_factor s) random_generator)
       (\<lambda>(sampled, g). Inr (fst sampled, g))"

text \<open>The loop of \<^verbatim>\<open>expected_policy_cost\<close>, with \<^verbatim>\<open>expected_cost\<close> as accumulator.\<close>

fun expected_cost_loop :: "UcbStatistics \<Rightarrow> Policy \<Rightarrow> Cost \<Rightarrow> error + Cost" where
  "expected_cost_loop [] policy expected_cost = Inr expected_cost"
| "expected_cost_loop ((a, p) # rest) policy expected_cost =
     and_then (map_at policy a) (\<lambda>probability.
       expected_cost_loop rest policy
         (dadd expected_cost (dmul probability (action_value p))))"

definition expected_policy_cost :: "CostConstrainedStatistic \<Rightarrow> Policy \<Rightarrow> error + Cost" where
  "expected_policy_cost s policy =
     expected_cost_loop (ucb_statistics (cost_statistic s)) policy (Fin 0)"

definition get_normalized_cost_action_value ::
  "CostConstrainedStatistic \<Rightarrow> ActionIdx \<Rightarrow> error + double" where
  "get_normalized_cost_action_value s action = get_normalized_ucb_value (cost_statistic s) action"

text \<open>
  For stating properties: the cost estimate \<^verbatim>\<open>cost_stats[a].action_value_\<close> of an action, the
  probability \<^verbatim>\<open>policy[a]\<close> a policy gives an action, and the total mass of a policy, summed
  in key order.
\<close>

definition cost_value :: "CostConstrainedStatistic \<Rightarrow> ActionIdx \<Rightarrow> double" where
  "cost_value s a = action_value (map_subscript (ucb_statistics (cost_statistic s)) a UcbPair_init)"

definition probability_of :: "Policy \<Rightarrow> ActionIdx \<Rightarrow> double" where
  "probability_of policy a = map_subscript policy a (Fin 0)"

definition policy_sum :: "Policy \<Rightarrow> double" where
  "policy_sum policy = foldl dadd (Fin 0) (map snd policy)"

section \<open>The update of lambda\<close>

text \<open>
  \<^verbatim>\<open>calculate_next_lambda\<close>. The upper clip limit is a quotient; when its denominator
  \<open>tau_gradient_clip * (1 - discount_factor)\<close> is a zero the limit is an infinity or a NaN,
  and \<^verbatim>\<open>std::min\<close> clips against that.
\<close>

definition clip_upper_limit :: "CostConstrainedStatistic \<Rightarrow> double \<Rightarrow> double \<Rightarrow> double" where
  "clip_upper_limit root_statistic tau_gradient_clip discount_factor =
     ddiv (dsub (upper_bound (reward_statistic root_statistic))
                (lower_bound (reward_statistic root_statistic)))
          (dmul tau_gradient_clip (dsub (Fin 1) discount_factor))"

definition calculate_next_lambda ::
  "double \<Rightarrow> double \<Rightarrow> double \<Rightarrow> double \<Rightarrow> CostConstrainedStatistic \<Rightarrow> double \<Rightarrow> rng
     \<Rightarrow> error + double \<times> rng"
where
  "calculate_next_lambda current_lambda gradient_update_step cost_constraint_local
       tau_gradient_clip root_statistic discount_factor random_generator =
     and_then (greedy_policy root_statistic (Fin 0) (Fin 0) random_generator) (\<lambda>(sampled, g).
       let policy_sampled_action = fst sampled
       in and_then (get_normalized_cost_action_value root_statistic policy_sampled_action)
            (\<lambda>normalized_ucb_sample_action.
               let gradient = dsub normalized_ucb_sample_action cost_constraint_local;
                   new_lambda = dadd current_lambda (dmul gradient_update_step gradient);
                   clipped_new_lambda =
                     std_min (std_max new_lambda (Fin 0))
                       (clip_upper_limit root_statistic tau_gradient_clip discount_factor)
               in Inr (clipped_new_lambda, g)))"

text \<open>
  \<^verbatim>\<open>update_statistic_parameters\<close>, the lambda adapter. It returns at once while the root
  still has unexpanded actions. \<^verbatim>\<open>current_iteration\<close> is an \<^verbatim>\<open>unsigned int\<close>; the literal
  \<^verbatim>\<open>0.1\<close> is read as one tenth.
\<close>

definition update_statistic_parameters ::
  "MctsParameters \<Rightarrow> CostConstrainedStatistic \<Rightarrow> u32 \<Rightarrow> rng \<Rightarrow> error + MctsParameters \<times> rng" where
  "update_statistic_parameters parameters root_statistic current_iteration random_generator =
     (if \<not> policy_is_ready root_statistic then Inr (parameters, random_generator)
      else let current_lambda = LAMBDA parameters;
               gradient_update_step =
                 ddiv (GRADIENT_UPDATE_STEP parameters)
                      (dadd (dmul (Fin (1 / 10)) (of_u32 current_iteration)) (Fin 1));
               cost_constraint_local = COST_CONSTRAINT parameters;
               tau_gradient_clip = TAU_GRADIENT_CLIP parameters
           in and_then (calculate_next_lambda current_lambda gradient_update_step
                          cost_constraint_local tau_gradient_clip root_statistic
                          (DISCOUNT_FACTOR parameters) random_generator)
                (\<lambda>(new_lambda, g). Inr (parameters\<lparr>LAMBDA := new_lambda\<rparr>, g)))"

section \<open>Example states\<close>

text \<open>
  The parameters of the repository's test \<^verbatim>\<open>one_step_higher_reward_higher_risk_constraint_eq\<close>
  (\<^verbatim>\<open>src/test/cost_constrained/cost_constrained_test.cc\<close>), its decimal numbers read as
  exact. \<open>LAMBDA\<close> is the test's \<^verbatim>\<open>lambda_desired_max\<close>,
  \<open>((1 - 0.8) * 2 - (1 - 0.3) * 0.5) / (0.3 - 0.8) = - 0.1\<close>. The test leaves \<open>KAPPA\<close> and
  the bounds of the plain UCT statistic at defaults that are not among the sources; the
  values here stand in for them.
\<close>

definition test_parameters :: MctsParameters where
  "test_parameters =
     \<lparr>DISCOUNT_FACTOR = Fin (9 / 10), UPPER_BOUND = Fin 1, LOWER_BOUND = Fin 0,
      LAMBDA = Fin (- (1 / 10)), KAPPA = Fin 10, ACTION_FILTER_FACTOR = Fin 1,
      COST_CONSTRAINT = Fin (8 / 10),
      COST_LOWER_BOUND = Fin 0, COST_UPPER_BOUND = Fin 1,
      REWARD_LOWER_BOUND = Fin 0, REWARD_UPPER_BOUND = Fin 2,
      GRADIENT_UPDATE_STEP = Fin (1 / 10), TAU_GRADIENT_CLIP = Fin 1\<rparr>"

text \<open>A freshly constructed node with three actions, as the test's state has them.\<close>

definition leaf_example :: CostConstrainedStatistic where
  "leaf_example = CostConstrainedStatistic_init (0, Fin 0) 3 test_parameters"

text \<open>The statistic a rollout hands back: accumulated reward \<open>2\<close>, accumulated cost \<open>1\<close>.\<close>

definition heuristic_example :: CostConstrainedStatistic where
  "heuristic_example = cc_set_heuristic_estimate (Fin 2) (Fin 1) leaf_example"

text \<open>
  A node's first two visits: it is created as a leaf and takes the heuristic value; on the
  next descent action \<open>1\<close> is taken with step reward \<open>0\<close> and step cost \<open>1\<close>, and the node
  is updated from the new child, itself a leaf with its heuristic value. Afterwards the
  node has one expanded action, the action \<open>1\<close>.
\<close>

definition steps_example :: "step list" where
  "steps_example =
     [UpdateFromHeuristic heuristic_example,
      SetCollected (1, Fin 0) (1, Fin 1),
      UpdateStatistic (cc_update_from_heuristic heuristic_example leaf_example)]"

text \<open>
  A root with two actions, both expanded and visited once, under the test's parameters:
  action \<open>0\<close> returned reward \<open>0.2\<close> at cost \<open>0\<close>, action \<open>1\<close> reward \<open>0\<close> at cost \<open>1\<close>.
  With \<open>lambda = - 0.1\<close> both actions have the same value
  \<open>reward - lambda * cost = 0.1\<close> (normalised), and the cost constraint \<open>0.8\<close> lies
  strictly between their cost estimates.
\<close>

definition root_example :: CostConstrainedStatistic where
  "root_example =
     \<lparr>cc_collected_reward = (1, Fin 0), cc_collected_cost = (1, Fin 1),
      reward_statistic =
        \<lparr>collected_reward = (1, Fin 0), node_value = Fin (1 / 15), latest_return = Fin 0,
         ucb_statistics = [(0, \<lparr>action_count = 1, action_value = Fin (1 / 5)\<rparr>),
                           (1, \<lparr>action_count = 1, action_value = Fin 0\<rparr>)],
         total_node_visits = 3, upper_bound = Fin 2, lower_bound = Fin 0,
         k_discount_factor = Fin (9 / 10)\<rparr>,
      cost_statistic =
        \<lparr>collected_reward = (1, Fin 1), node_value = Fin (1 / 3), latest_return = Fin 1,
         ucb_statistics = [(0, \<lparr>action_count = 1, action_value = Fin 0\<rparr>),
                           (1, \<lparr>action_count = 1, action_value = Fin 1\<rparr>)],
         total_node_visits = 3, upper_bound = Fin 1, lower_bound = Fin 0,
         k_discount_factor = Fin 1\<rparr>,
      unexpanded_actions = [], mean_step_costs = [(0, Fin 0), (1, Fin 1)],
      lambda = Fin (- (1 / 10)), kappa = Fin 10, action_filter_factor = Fin 1,
      cost_constraint = Fin (8 / 10)\<rparr>"

text \<open>
  The updates that build this root from a fresh node with two actions: the heuristic
  value \<open>0\<close> of the new node, then one descent through each action, each ending in a new
  leaf of heuristic value \<open>0\<close>.
\<close>

definition zero_leaf :: "nat \<Rightarrow> CostConstrainedStatistic" where
  "zero_leaf num_actions =
     (let fresh = CostConstrainedStatistic_init (0, Fin 0) num_actions test_parameters
      in cc_update_from_heuristic (cc_set_heuristic_estimate (Fin 0) (Fin 0) fresh) fresh)"

definition root_steps :: "step list" where
  "root_steps =
     [UpdateFromHeuristic (cc_set_heuristic_estimate (Fin 0) (Fin 0) leaf_example),
      SetCollected (0, Fin (1 / 5)) (0, Fin 0), UpdateStatistic (zero_leaf 2),
      SetCollected (1, Fin 0) (1, Fin 1), UpdateStatistic (zero_leaf 2)]"

text \<open>A root with a single action that was visited twice, at step cost \<open>1\<close> each time.\<close>

definition single_example :: CostConstrainedStatistic where
  "single_example =
     \<lparr>cc_collected_reward = (0, Fin 0), cc_collected_cost = (0, Fin 1),
      reward_statistic =
        \<lparr>collected_reward = (0, Fin 0), node_value = Fin 0, latest_return = Fin 0,
         ucb_statistics = [(0, \<lparr>action_count = 2, action_value = Fin 0\<rparr>)],
         total_node_visits = 3, upper_bound = Fin 2, lower_bound = Fin 0,
         k_discount_factor = Fin (9 / 10)\<rparr>,
      cost_statistic =
        \<lparr>collected_reward = (0, Fin 1), node_value = Fin (2 / 3), latest_return = Fin 1,
         ucb_statistics = [(0, \<lparr>action_count = 2, action_value = Fin 1\<rparr>)],
         total_node_visits = 3, upper_bound = Fin 1, lower_bound = Fin 0,
         k_discount_factor = Fin 1\<rparr>,
      unexpanded_actions = [], mean_step_costs = [(0, Fin 1)],
      lambda = Fin (- (1 / 10)), kappa = Fin 10, action_filter_factor = Fin 1,
      cost_constraint = Fin (8 / 10)\<rparr>"

definition single_steps :: "step list" where
  "single_steps =
     [UpdateFromHeuristic (cc_set_heuristic_estimate (Fin 0) (Fin 0) leaf_example),
      SetCollected (0, Fin 0) (0, Fin 1), UpdateStatistic (zero_leaf 1),
      SetCollected (0, Fin 0) (0, Fin 1), UpdateStatistic (zero_leaf 1)]"

text \<open>
  The same node with the counter of its action at \<open>0\<close>, as a counter is after \<open>2^32\<close>
  visits.
\<close>

definition unvisited_example :: CostConstrainedStatistic where
  "unvisited_example =
     single_example
       \<lparr>reward_statistic := (reward_statistic single_example)
          \<lparr>ucb_statistics := [(0, \<lparr>action_count = 0, action_value = Fin 0\<rparr>)]\<rparr>,
        cost_statistic := (cost_statistic single_example)
          \<lparr>ucb_statistics := [(0, \<lparr>action_count = 0, action_value = Fin 1\<rparr>)]\<rparr>\<rparr>"

text \<open>
  A root with two expanded actions of cost estimates \<open>0.25\<close> and \<open>0.75\<close> under
  \<open>lambda = 0.5\<close>: the values are \<open>0.1 - 0.5 * 0.25\<close> and \<open>0 - 0.5 * 0.75\<close>, so with filter
  factor \<open>0\<close> the action \<open>0\<close> alone is feasible.
\<close>

definition adapter_parameters :: MctsParameters where
  "adapter_parameters = test_parameters\<lparr>LAMBDA := Fin (1 / 2)\<rparr>"

definition adapter_example :: CostConstrainedStatistic where
  "adapter_example =
     \<lparr>cc_collected_reward = (1, Fin 0), cc_collected_cost = (1, Fin 1),
      reward_statistic =
        \<lparr>collected_reward = (1, Fin 0), node_value = Fin (2 / 25), latest_return = Fin 0,
         ucb_statistics = [(0, \<lparr>action_count = 2, action_value = Fin (1 / 5)\<rparr>),
                           (1, \<lparr>action_count = 2, action_value = Fin 0\<rparr>)],
         total_node_visits = 5, upper_bound = Fin 2, lower_bound = Fin 0,
         k_discount_factor = Fin (9 / 10)\<rparr>,
      cost_statistic =
        \<lparr>collected_reward = (1, Fin 1), node_value = Fin (2 / 5), latest_return = Fin 1,
         ucb_statistics = [(0, \<lparr>action_count = 2, action_value = Fin (1 / 4)\<rparr>),
                           (1, \<lparr>action_count = 2, action_value = Fin (3 / 4)\<rparr>)],
         total_node_visits = 5, upper_bound = Fin 1, lower_bound = Fin 0,
         k_discount_factor = Fin 1\<rparr>,
      unexpanded_actions = [], mean_step_costs = [(0, Fin (1 / 4)), (1, Fin (3 / 4))],
      lambda = Fin (1 / 2), kappa = Fin 10, action_filter_factor = Fin 1,
      cost_constraint = Fin (8 / 10)\<rparr>"

text \<open>
  The updates that build this root from a fresh node with two actions: each action is
  taken twice, the action \<open>0\<close> at step reward \<open>0.2\<close> and step costs \<open>0\<close> and \<open>0.5\<close>, the
  action \<open>1\<close> at step reward \<open>0\<close> and step costs \<open>0.5\<close> and \<open>1\<close>.
\<close>

definition adapter_steps :: "step list" where
  "adapter_steps =
     [UpdateFromHeuristic (cc_set_heuristic_estimate (Fin 0) (Fin 0) leaf_example),
      SetCollected (0, Fin (1 / 5)) (0, Fin 0), UpdateStatistic (zero_leaf 2),
      SetCollected (0, Fin (1 / 5)) (0, Fin (1 / 2)), UpdateStatistic (zero_leaf 2),
      SetCollected (1, Fin 0) (1, Fin (1 / 2)), UpdateStatistic (zero_leaf 2),
      SetCollected (1, Fin 0) (1, Fin 1), UpdateStatistic (zero_leaf 2)]"

text \<open>
  The example root with cost estimates \<open>- 2^1023\<close> and \<open>2^1023\<close>, two doubles whose
  difference is beyond the largest double, and the cost constraint \<open>0\<close> between them.
\<close>

definition overflow_example :: CostConstrainedStatistic where
  "overflow_example =
     root_example
       \<lparr>cost_statistic := (cost_statistic root_example)
          \<lparr>ucb_statistics := [(0, \<lparr>action_count = 1, action_value = Fin (- (2 ^ 1023))\<rparr>),
                             (1, \<lparr>action_count = 1, action_value = Fin (2 ^ 1023)\<rparr>)]\<rparr>,
        cost_constraint := Fin 0\<rparr>"

text \<open>A statistic with three expanded actions, two of them tied for the best value.\<close>

definition uct_example :: UctStatistic where
  "uct_example = \<lparr>collected_reward = (0, Fin 0), node_value = Fin 0,
     latest_return = Fin 0,
     ucb_statistics = [(0, \<lparr>action_count = 1, action_value = Fin 1\<rparr>),
                       (1, \<lparr>action_count = 2, action_value = Fin 3\<rparr>),
                       (2, \<lparr>action_count = 1, action_value = Fin 3\<rparr>)],
     total_node_visits = 4, upper_bound = Fin 5, lower_bound = Fin 0,
     k_discount_factor = Fin 1\<rparr>"

text \<open>The same statistic after a NaN has been stored for its first action.\<close>

definition uct_nan_example :: UctStatistic where
  "uct_nan_example =
     uct_example\<lparr>ucb_statistics :=
       [(0, \<lparr>action_count = 1, action_value = NaN\<rparr>),
        (1, \<lparr>action_count = 2, action_value = Fin 3\<rparr>),
        (2, \<lparr>action_count = 1, action_value = Fin 3\<rparr>)]\<rparr>"

section \<open>Properties of the comparisons\<close>

lemma dlt_not_nan: "dlt a b \<Longrightarrow> \<not> isnan a \<and> \<not> isnan b"
  by (simp add: dlt_def)

lemma dle_not_nan: "dle a b \<Longrightarrow> \<not> isnan a \<and> \<not> isnan b"
  by (simp add: dle_def)

lemma dle_refl: "\<not> isnan a \<Longrightarrow> dle a a"
  by (cases a) (simp_all add: dle_def)

lemma dlt_irrefl: "\<not> dlt a a"
  by (cases a) (simp_all add: dlt_def)

lemma not_dlt_iff: "\<not> isnan a \<Longrightarrow> \<not> isnan b \<Longrightarrow> (\<not> dlt a b) = dle b a"
  by (cases a; cases b) (auto simp add: dlt_def dle_def)

lemma dlt_imp_dle: "dlt a b \<Longrightarrow> dle a b"
  by (cases a; cases b) (auto simp add: dlt_def dle_def)

lemma dlt_imp_not_dle: "dlt a b \<Longrightarrow> \<not> dle b a"
  by (cases a; cases b) (auto simp add: dlt_def dle_def)

lemma dle_trans: "dle a b \<Longrightarrow> dle b c \<Longrightarrow> dle a c"
  by (cases a; cases b; cases c) (auto simp add: dle_def)

lemma dlt_dle_trans: "dlt a b \<Longrightarrow> dle b c \<Longrightarrow> dlt a c"
  by (cases a; cases b; cases c) (auto simp add: dlt_def dle_def)

lemma dle_dlt_trans: "dle a b \<Longrightarrow> dlt b c \<Longrightarrow> dlt a c"
  by (cases a; cases b; cases c) (auto simp add: dlt_def dle_def)

section \<open>Counters as doubles\<close>

lemma of_u32_simps:
  "isnan (of_u32 n) = False" "isinf (of_u32 n) = False" "isfinite (of_u32 n) = True"
  "signbit (of_u32 n) = False" "iszero (of_u32 n) = (n = 0)"
  "0 \<le> val (of_u32 n)" "(val (of_u32 n) = 0) = (n = 0)" "(0 < val (of_u32 n)) = (n \<noteq> 0)"
proof -
  have nonneg: "0 \<le> real (unat n)" by (rule of_nat_0_le_iff)
  have zero: "(real (unat n) = 0) = (n = 0)" by (metis of_nat_eq_0_iff unat_eq_0)
  show "isnan (of_u32 n) = False" "isinf (of_u32 n) = False" "isfinite (of_u32 n) = True"
    unfolding of_u32_def by simp_all
  show "signbit (of_u32 n) = False" unfolding of_u32_def signbit.simps
    using nonneg by (simp only: not_less [symmetric] simp_thms)
  show "iszero (of_u32 n) = (n = 0)" unfolding of_u32_def iszero.simps by (rule zero)
  show "0 \<le> val (of_u32 n)" unfolding of_u32_def val.simps by (rule nonneg)
  show z: "(val (of_u32 n) = 0) = (n = 0)" unfolding of_u32_def val.simps by (rule zero)
  show "(0 < val (of_u32 n)) = (n \<noteq> 0)"
    using z nonneg unfolding of_u32_def val.simps by linarith
qed

lemma of_u32_0: "of_u32 0 = Fin 0"
  by (simp add: of_u32_def)

section \<open>Properties of the crossing-state policy\<close>

lemma calculate_action_cases:
  "calculate_action e d = (if e = d then WAIT else FORWARD)"
  by (simp add: calculate_action_def word_greater_zero_iff)

lemma count_selected_BACKWARD:
  "count_selected e BACKWARD gs n = n"
  by (induction gs arbitrary: n) (simp_all add: calculate_action_cases)

lemma zero_over_counter:
  "ddiv (Fin 0) (of_u32 n) = (if n = 0 then NaN else Fin 0)"
  by (simp add: ddiv_def of_u32_simps zero_of_def)

text \<open>
  Claim C10, as the code has it. \<^verbatim>\<open>calculate_action\<close> never returns \<open>BACKWARD\<close>: the
  unsigned difference is positive whenever the two distances differ, so the result is
  \<open>FORWARD\<close> then, and \<open>WAIT\<close> when they are equal. \<^verbatim>\<open>get_probability\<close> therefore counts
  no gap for \<open>BACKWARD\<close>, whatever the distance and the range: the probability is \<open>0\<close> when
  the vector of gaps is non-empty, and the quotient \<open>0 / 0\<close>, a NaN, when the length
  \<open>second - first + 1\<close> wraps around to \<open>0\<close>. The same holds through
  \<^verbatim>\<open>HypothesisCrossingState::get_probability\<close>.
\<close>

theorem calculate_action_never_BACKWARD:
  "calculate_action ego_distance desired_gap_dst
     = (if ego_distance = desired_gap_dst then WAIT else FORWARD) \<and>
   calculate_action ego_distance desired_gap_dst \<noteq> BACKWARD \<and>
   get_probability r ego_distance BACKWARD = (if snd r - fst r + 1 = 0 then NaN else Fin 0) \<and>
   (\<forall>p. state_get_probability s h agent_idx BACKWARD = Inr p \<longrightarrow>
        p = (if snd (hypothesis s ! h) - fst (hypothesis s ! h) + 1 = 0 then NaN else Fin 0))"
proof -
  have probability: "get_probability q e BACKWARD = (if snd q - fst q + 1 = 0 then NaN else Fin 0)"
    for q e
    by (simp add: get_probability_def count_selected_BACKWARD of_u32_0 zero_over_counter Let_def)
  show ?thesis
    by (auto simp add: calculate_action_cases probability state_get_probability_def
        and_then_def split: sum.splits if_splits)
qed

text \<open>
  The range \<open>(0, 2^32 - 1)\<close> has \<open>first \<le> second\<close>, its length wraps around to \<open>0\<close>, and
  the value returned for \<open>BACKWARD\<close> is a NaN, not the probability \<open>0\<close>.
\<close>

theorem get_probability_BACKWARD_full_range:
  "get_probability (0, 4294967295) 5 BACKWARD = NaN \<and>
   get_probability (0, 4294967295) 5 BACKWARD \<noteq> Fin 0"
  by (simp add: get_probability_def iota_def of_u32_0 zero_over_counter)

theorem calculate_action_never_BACKWARD_witness:
  "calculate_action 2 5 = FORWARD \<and> calculate_action 5 5 = WAIT \<and>
   get_probability (1, 3) 2 BACKWARD = Fin 0 \<and>
   state_get_probability crossing_example 0 1 BACKWARD = Inr (Fin 0)"
  using calculate_action_never_BACKWARD [of 2 5 "(1, 3)" crossing_example 0 1]
    calculate_action_never_BACKWARD [of 5 5 "(1, 3)" crossing_example 0 1]
  by (simp add: crossing_example_def state_get_probability_def dst_to_ego_def and_then_def)

section \<open>Properties of \<open>get_best_action\<close>\<close>

lemma map_at_ordered:
  "ordered m \<Longrightarrow> (a, p) \<in> set m \<Longrightarrow> map_at m a = Inr p"
  by (induction m) (auto)

lemma best_loop_nan:
  "isnan t \<Longrightarrow> best_loop m (t, b) = (t, b)"
  by (induction m) (auto simp add: dlt_def)

lemma best_loop_changed:
  "best_loop m (t, b) = (t', b') \<Longrightarrow>
     (t' = t \<and> b' = b) \<or> (dlt t t' \<and> (\<exists>p. (b', p) \<in> set m \<and> action_value p = t'))"
proof (induction m arbitrary: t b)
  case Nil
  then show ?case by simp
next
  case (Cons x m)
  obtain a p where x: "x = (a, p)" by (cases x)
  show ?case
  proof (cases "dgt (action_value p) t")
    case True
    with Cons.prems x have "best_loop m (action_value p, a) = (t', b')" by simp
    from Cons.IH [OF this] True x show ?thesis
      by (auto intro: dlt_dle_trans dlt_imp_dle)
  next
    case False
    with Cons.prems x have "best_loop m (t, b) = (t', b')" by simp
    from Cons.IH [OF this] show ?thesis by auto
  qed
qed

lemma best_loop_upper:
  "\<not> isnan t \<Longrightarrow> best_loop m (t, b) = (t', b') \<Longrightarrow>
     \<not> isnan t' \<and> dle t t' \<and>
     (\<forall>(k, q) \<in> set m. \<not> isnan (action_value q) \<longrightarrow> dle (action_value q) t')"
proof (induction m arbitrary: t b)
  case Nil
  then show ?case by (simp add: dle_refl)
next
  case (Cons x m)
  obtain a p where x: "x = (a, p)" by (cases x)
  show ?case
  proof (cases "dgt (action_value p) t")
    case True
    with Cons.prems x have run: "best_loop m (action_value p, a) = (t', b')" by simp
    from True have np: "\<not> isnan (action_value p)" by (simp add: dlt_not_nan)
    from Cons.IH [OF np run] have ih: "\<not> isnan t'" "dle (action_value p) t'"
      "\<forall>(k, q) \<in> set m. \<not> isnan (action_value q) \<longrightarrow> dle (action_value q) t'"
      by auto
    from True ih(2) have "dle t t'" by (blast intro: dlt_imp_dle dle_trans)
    with ih x show ?thesis by auto
  next
    case False
    with Cons.prems x have run: "best_loop m (t, b) = (t', b')" by simp
    from Cons.IH [OF Cons.prems(1) run] have ih: "\<not> isnan t'" "dle t t'"
      "\<forall>(k, q) \<in> set m. \<not> isnan (action_value q) \<longrightarrow> dle (action_value q) t'"
      by auto
    have "\<not> isnan (action_value p) \<longrightarrow> dle (action_value p) t'"
    proof
      assume np: "\<not> isnan (action_value p)"
      with False Cons.prems(1) have "dle (action_value p) t" by (simp add: not_dlt_iff)
      from this ih(2) show "dle (action_value p) t'" by (rule dle_trans)
    qed
    with ih x show ?thesis by auto
  qed
qed

lemma best_loop_lowest:
  "ordered m \<Longrightarrow> \<forall>k \<in> set (map_keys m). b \<le> k \<Longrightarrow> best_loop m (t, b) = (t', b') \<Longrightarrow>
     \<forall>(k, q) \<in> set m. dle t' (action_value q) \<longrightarrow> b' \<le> k"
proof (induction m arbitrary: t b)
  case Nil
  then show ?case by simp
next
  case (Cons x m)
  obtain a p where x: "x = (a, p)" by (cases x)
  from Cons.prems(1) x have ord: "ordered m" and above: "\<forall>k \<in> set (map_keys m). a < k"
    by auto
  show ?case
  proof (cases "dgt (action_value p) t")
    case True
    with Cons.prems x have run: "best_loop m (action_value p, a) = (t', b')" by simp
    from above have "\<forall>k \<in> set (map_keys m). a \<le> k" by auto
    from Cons.IH [OF ord this run]
    have rest: "\<forall>(k, q) \<in> set m. dle t' (action_value q) \<longrightarrow> b' \<le> k" .
    from best_loop_changed [OF run] have "dle t' (action_value p) \<longrightarrow> b' \<le> a"
      by (auto dest: dlt_imp_not_dle)
    with rest x show ?thesis by auto
  next
    case False
    with Cons.prems x have run: "best_loop m (t, b) = (t', b')" by simp
    from Cons.prems(2) x have "\<forall>k \<in> set (map_keys m). b \<le> k" and ba: "b \<le> a" by auto
    from Cons.IH [OF ord this(1) run]
    have rest: "\<forall>(k, q) \<in> set m. dle t' (action_value q) \<longrightarrow> b' \<le> k" .
    from best_loop_changed [OF run] False ba have "dle t' (action_value p) \<longrightarrow> b' \<le> a"
      by (auto dest: dlt_dle_trans)
    with rest x show ?thesis by auto
  qed
qed

text \<open>
  Claim C9, as the code has it. \<^verbatim>\<open>UctStatistic::get_best_action\<close> is defined exactly on
  the statistics with an expanded action (the empty map is the undefined read, \<open>None\<close>).
  On a non-empty map it returns an expanded action. When the value stored for the first
  action is a NaN, every comparison of the loop fails and that first action is returned.
  Otherwise the value of the returned action is not a NaN, no stored value that is not a
  NaN exceeds it, and among the actions of that value it is the one of lowest index
  (values compared as doubles, so the two zeros count as equal).
\<close>

theorem get_best_action_defined_and_maximal:
  "(get_best_action s = None \<longleftrightarrow> ucb_statistics s = []) \<and>
   (ucb_statistics s \<noteq> [] \<longrightarrow> ordered (ucb_statistics s) \<longrightarrow>
      (\<exists>a p. get_best_action s = Some a \<and> map_at (ucb_statistics s) a = Inr p \<and>
         (if isnan (action_value (snd (hd (ucb_statistics s))))
          then a = fst (hd (ucb_statistics s))
          else \<not> isnan (action_value p) \<and>
               (\<forall>(b, q) \<in> set (ucb_statistics s).
                  \<not> isnan (action_value q) \<longrightarrow>
                    dle (action_value q) (action_value p) \<and>
                    (dle (action_value p) (action_value q) \<longrightarrow> a \<le> b)))))"
proof (cases "ucb_statistics s")
  case Nil
  then show ?thesis by (simp add: get_best_action_def)
next
  case (Cons x m)
  obtain a0 p0 where x: "x = (a0, p0)" by (cases x)
  obtain t' b' where run: "best_loop (ucb_statistics s) (action_value p0, a0) = (t', b')"
    by (cases "best_loop (ucb_statistics s) (action_value p0, a0)")
  have best: "get_best_action s = Some b'"
    using Cons x run by (simp add: get_best_action_def)
  have first: "(a0, p0) \<in> set (ucb_statistics s)" using Cons x by simp
  have hd: "hd (ucb_statistics s) = (a0, p0)" using Cons x by simp
  show ?thesis
  proof (intro conjI impI)
    show "get_best_action s = None \<longleftrightarrow> ucb_statistics s = []"
      using best Cons by simp
  next
    assume ord: "ordered (ucb_statistics s)"
    from best_loop_changed [OF run] first
    obtain p where mem: "(b', p) \<in> set (ucb_statistics s)" and val: "action_value p = t'"
      by auto
    have at: "map_at (ucb_statistics s) b' = Inr p"
      by (rule map_at_ordered [OF ord mem])
    have "if isnan (action_value p0) then b' = a0
          else \<not> isnan (action_value p) \<and>
               (\<forall>(b, q) \<in> set (ucb_statistics s).
                  \<not> isnan (action_value q) \<longrightarrow>
                    dle (action_value q) (action_value p) \<and>
                    (dle (action_value p) (action_value q) \<longrightarrow> b' \<le> b))"
    proof (cases "isnan (action_value p0)")
      case True
      from best_loop_nan [OF True, of "ucb_statistics s" a0] run True show ?thesis by simp
    next
      case False
      from ord Cons x have "\<forall>k \<in> set (map_keys (ucb_statistics s)). a0 \<le> k"
        by auto
      from best_loop_lowest [OF ord this run] best_loop_upper [OF False run] val False
      show ?thesis by auto
    qed
    with best at hd
    show "\<exists>a p. get_best_action s = Some a \<and> map_at (ucb_statistics s) a = Inr p \<and>
         (if isnan (action_value (snd (hd (ucb_statistics s))))
          then a = fst (hd (ucb_statistics s))
          else \<not> isnan (action_value p) \<and>
               (\<forall>(b, q) \<in> set (ucb_statistics s).
                  \<not> isnan (action_value q) \<longrightarrow>
                    dle (action_value q) (action_value p) \<and>
                    (dle (action_value p) (action_value q) \<longrightarrow> a \<le> b)))"
      by (intro exI [of _ b'] exI [of _ p]) simp
  qed
qed

text \<open>
  With a NaN stored for the first action the action returned is that first one, though
  the values \<open>3\<close> of the other two actions are the largest numbers stored: the returned
  action does not maximise the stored value.
\<close>

theorem get_best_action_returns_first_on_NaN:
  "ordered (ucb_statistics uct_nan_example) \<and>
   get_best_action uct_nan_example = Some 0 \<and>
   map_at (ucb_statistics uct_nan_example) 0 = Inr \<lparr>action_count = 1, action_value = NaN\<rparr> \<and>
   map_at (ucb_statistics uct_nan_example) 1 = Inr \<lparr>action_count = 2, action_value = Fin 3\<rparr> \<and>
   \<not> dle (Fin 3) NaN"
  by (simp add: uct_nan_example_def uct_example_def get_best_action_def dlt_def dle_def)

theorem get_best_action_witness:
  "ucb_statistics uct_example \<noteq> [] \<and> ordered (ucb_statistics uct_example) \<and>
   \<not> isnan (action_value (snd (hd (ucb_statistics uct_example)))) \<and>
   get_best_action uct_example = Some 1"
  using get_best_action_defined_and_maximal [of uct_example]
  by (simp add: uct_example_def get_best_action_def dlt_def)

section \<open>Visits and action counts\<close>

lemma map_keys_map_assign:
  "set (map_keys (map_assign k v m)) = insert k (set (map_keys m))"
proof (induction m)
  case Nil
  then show ?case by simp
next
  case (Cons x m)
  obtain k' v' where x: "x = (k', v')" by (cases x)
  with Cons.IH show ?case by (simp add: insert_commute)
qed

lemma ordered_map_assign:
  "ordered m \<Longrightarrow> ordered (map_assign k v m)"
proof (induction m)
  case Nil
  then show ?case by simp
next
  case (Cons x m)
  obtain k' v' where x: "x = (k', v')" by (cases x)
  from Cons.prems x have ord: "ordered m" and above: "\<forall>j \<in> set (map_keys m). k' < j"
    by auto
  consider "k < k'" | "k = k'" | "k' < k" by linarith
  then show ?case
  proof cases
    case 1
    with above have "\<forall>j \<in> set (map_keys m). k < j" by auto
    with 1 ord above x show ?thesis by simp
  next
    case 2
    with ord above x show ?thesis by simp
  next
    case 3
    from above 3 have "\<forall>j \<in> set (map_keys (map_assign k v m)). k' < j"
      unfolding map_keys_map_assign by simp
    with 3 Cons.IH [OF ord] x show ?thesis by simp
  qed
qed










lemma steps_example_run:
  "map_keys (ucb_statistics (reward_statistic (run steps_example leaf_example))) = [1] \<and>
   map_keys (ucb_statistics (cost_statistic (run steps_example leaf_example))) = [1] \<and>
   sum_counts (ucb_statistics (reward_statistic (run steps_example leaf_example))) = 1 \<and>
   sum_counts (ucb_statistics (cost_statistic (run steps_example leaf_example))) = 1"
  by (simp add: steps_example_def leaf_example_def heuristic_example_def
      cc_update_statistic_def cc_update_from_heuristic_def cc_set_heuristic_estimate_def
      set_heuristic_estimate_from_backpropagated_def
      update_statistics_from_backpropagated_def update_from_heuristic_from_backpropagated_def
      CostConstrainedStatistic_init_def UctStatistic_init_def sum_counts_def
      map_subscript_def UcbPair_init_def Let_def)


section \<open>Arithmetic of doubles\<close>

text \<open>Numbers far below \<^verbatim>\<open>max()\<close> are added, subtracted and multiplied exactly.\<close>

lemma small_bounds:
  "(2 :: real) ^ 64 < DBL_MAX" "(2 :: real) ^ 65 < overflow_limit" "DBL_MAX < overflow_limit"
  "(2 :: real) ^ 64 < absorption_limit" "0 < DBL_MAX" "absorption_limit < DBL_MAX"
  "DBL_MAX + absorption_limit = overflow_limit"
  by (simp_all add: DBL_MAX_def overflow_limit_def absorption_limit_def)

lemma overflow_Fin:
  assumes "\<bar>r\<bar> < overflow_limit"
  shows "overflow r = Fin r"
proof -
  from assms have "r < overflow_limit" "- overflow_limit < r" by linarith+
  then show ?thesis by (simp add: overflow_def)
qed

lemma overflow_small: "\<bar>r\<bar> < 2 ^ 65 \<Longrightarrow> overflow r = Fin r"
  using small_bounds(2) by (intro overflow_Fin) linarith

lemma dadd_Fin:
  assumes "\<bar>a\<bar> < 2 ^ 64" and "\<bar>b\<bar> < 2 ^ 64"
  shows "dadd (Fin a) (Fin b) = Fin (a + b)"
proof -
  from assms small_bounds(1) have "\<bar>a\<bar> \<noteq> DBL_MAX" "\<bar>b\<bar> \<noteq> DBL_MAX" by simp_all
  moreover from assms have "\<bar>a + b\<bar> < 2 ^ 65" by simp
  ultimately show ?thesis by (simp add: dadd_def overflow_small)
qed

lemma dsub_Fin:
  assumes "\<bar>a\<bar> < 2 ^ 64" and "\<bar>b\<bar> < 2 ^ 64"
  shows "dsub (Fin a) (Fin b) = Fin (a - b)"
proof (cases "b = 0")
  case True
  then show ?thesis by (simp add: dsub_def dadd_def)
next
  case False
  with dadd_Fin [OF assms(1), of "- b"] assms(2) show ?thesis by (simp add: dsub_def)
qed

lemma dmul_Fin:
  assumes "\<bar>a * b\<bar> < 2 ^ 65"
  shows "dmul (Fin a) (Fin b)
           = (if a * b = 0 then zero_of ((a < 0) \<noteq> (b < 0)) else Fin (a * b))"
  using assms by (simp add: dmul_def overflow_small)

lemma ddiv_Fin:
  assumes "b \<noteq> 0" and "\<bar>a / b\<bar> < 2 ^ 65"
  shows "ddiv (Fin a) (Fin b)
           = (if a = 0 then zero_of (b < 0) else Fin (a / b))"
  using assms by (auto simp add: ddiv_def overflow_small)


lemma dsub_self_inf: "isinf v \<Longrightarrow> dsub v v = NaN"
  by (cases v) (simp_all add: dsub_def dadd_def)



text \<open>Finite operands give no NaN in a sum or a product.\<close>

lemma overflow_not_nan: "\<not> isnan (overflow r)"
  by (simp add: overflow_def)

lemma dmul_finite_not_nan: "isfinite a \<Longrightarrow> isfinite b \<Longrightarrow> \<not> isnan (dmul a b)"
  by (cases a; cases b) (simp_all add: dmul_def zero_of_def overflow_not_nan)

lemma dadd_finite_not_nan: "isfinite a \<Longrightarrow> \<not> isnan b \<Longrightarrow> \<not> isnan (dadd a b)"
  by (cases a; cases b) (simp_all add: dadd_def overflow_not_nan)

lemma dle_zero_finite:
  "dle (Fin 0) a \<Longrightarrow> dle a (Fin 1) \<Longrightarrow> isfinite a \<and> 0 \<le> val a \<and> val a \<le> 1"
  by (cases a) (simp_all add: dle_def)

section \<open>Maps and policies\<close>

lemma map_at_map_assign:
  "map_at (map_assign a v m) b = (if b = a then Inr v else map_at m b)"
  by (induction m) auto

lemma map_at_member:
  "a \<in> set (map_keys m) \<Longrightarrow> \<exists>p. map_at m a = Inr p"
  by (induction m) fastforce+

lemma map_at_absent:
  "a \<notin> set (map_keys m) \<Longrightarrow> map_at m a = Inl OutOfRange"
  by (induction m) auto

lemma map_at_Inr_member:
  "map_at m a = Inr p \<Longrightarrow> a \<in> set (map_keys m)"
  by (induction m) (auto split: if_splits)

lemma map_keys_map_assign_member:
  "ordered m \<Longrightarrow> a \<in> set (map_keys m) \<Longrightarrow> map_keys (map_assign a v m) = map_keys m"
  by (induction m) fastforce+

lemma map_assign_entries:
  "set (map snd (map_assign a v m)) \<subseteq> insert v (set (map snd m))"
proof (induction m)
  case Nil
  then show ?case by simp
next
  case (Cons x m)
  obtain k' v' where x: "x = (k', v')" by (cases x)
  consider "a < k'" | "a = k'" | "k' < a" by linarith
  then show ?case
  proof cases
    case 1
    with x show ?thesis by auto
  next
    case 2
    with x show ?thesis by auto
  next
    case 3
    with x have "set (map snd (map_assign a v (x # m)))
        = insert v' (set (map snd (map_assign a v m)))" by simp
    with Cons.IH x show ?thesis by auto
  qed
qed

lemma probability_of_map_assign:
  "probability_of (map_assign a v m) b = (if b = a then v else probability_of m b)"
  by (simp add: probability_of_def map_subscript_def map_at_map_assign)

lemma zero_policy_keys: "map_keys (zero_policy cs) = map_keys cs"
  by (induction cs) (auto simp add: zero_policy_def)

lemma zero_policy_entries: "set (map snd (zero_policy cs)) \<subseteq> {Fin 0}"
  by (induction cs) (auto simp add: zero_policy_def)

lemma zero_policy_at: "map_at (zero_policy cs) a = Inr v \<Longrightarrow> v = Fin 0"
  by (induction cs) (auto simp add: zero_policy_def split: if_splits)

lemma zero_policy_probability: "probability_of (zero_policy cs) a = Fin 0"
  using zero_policy_at [of cs a]
  by (cases "map_at (zero_policy cs) a") (simp_all add: probability_of_def map_subscript_def)

lemma ordered_zero_policy: "ordered cs \<Longrightarrow> ordered (zero_policy cs)"
  by (simp add: zero_policy_keys)

lemma cost_value_at:
  "map_at (ucb_statistics (cost_statistic s)) a = Inr p \<Longrightarrow> cost_value s a = action_value p"
  by (simp add: cost_value_def map_subscript_def)

text \<open>
  The mass of a policy whose entries are finite and not negative, and are few enough
  for the sum to stay small, is the sum of the numbers they stand for.
\<close>

lemma dadd_Fin_finite:
  assumes "isfinite e" and "\<bar>x\<bar> < 2 ^ 64" and "\<bar>val e\<bar> < 2 ^ 64"
  shows "dadd (Fin x) e = Fin (x + val e)"
proof (cases e)
  case (Fin r)
  with dadd_Fin [of x r] assms show ?thesis by simp
next
  case NegZero
  then show ?thesis by (simp add: dadd_def)
qed (use assms in simp_all)

lemma foldl_dadd_sum:
  assumes "\<forall>e \<in> set es. isfinite e \<and> 0 \<le> val e"
    and "0 \<le> x" and "x + (\<Sum>e \<leftarrow> es. val e) < 2 ^ 64"
  shows "foldl dadd (Fin x) es = Fin (x + (\<Sum>e \<leftarrow> es. val e))"
  using assms
proof (induction es arbitrary: x)
  case Nil
  then show ?case by simp
next
  case (Cons e es)
  from Cons.prems(1) have e: "isfinite e" "0 \<le> val e"
    and rest: "\<forall>e \<in> set es. isfinite e \<and> 0 \<le> val e"
    by simp_all
  from rest have "0 \<le> (\<Sum>e \<leftarrow> es. val e)" by (auto intro!: sum_list_nonneg)
  with Cons.prems(2,3) e have small: "\<bar>x\<bar> < 2 ^ 64" "\<bar>val e\<bar> < 2 ^ 64" by simp_all
  from dadd_Fin_finite [OF e(1) small] have step: "dadd (Fin x) e = Fin (x + val e)" .
  from Cons.prems(2,3) e have "0 \<le> x + val e" "x + val e + (\<Sum>e \<leftarrow> es. val e) < 2 ^ 64"
    by simp_all
  from Cons.IH [OF rest this] step show ?case by (simp add: add.assoc)
qed

lemma mass_map_assign:
  "ordered m \<Longrightarrow>
   sum_list (map (val \<circ> snd) (map_assign a v m))
     = sum_list (map (val \<circ> snd) m) - val (probability_of m a) + val v"
proof (induction m)
  case Nil
  then show ?case by (simp add: probability_of_def map_subscript_def)
next
  case (Cons x m)
  obtain k' v' where x: "x = (k', v')" by (cases x)
  from Cons.prems x have ord: "ordered m" and above: "\<forall>k \<in> set (map_keys m). k' < k"
    by auto
  consider "a < k'" | "a = k'" | "k' < a" by linarith
  then show ?case
  proof cases
    case 1
    with above have "a \<notin> set (map_keys m)" by auto
    from map_at_absent [OF this] 1 x show ?thesis
      by (simp add: probability_of_def map_subscript_def)
  next
    case 2
    with x show ?thesis by (simp add: probability_of_def map_subscript_def)
  next
    case 3
    with Cons.IH [OF ord] x show ?thesis
      by (simp add: probability_of_def map_subscript_def)
  qed
qed

lemma zero_policy_mass: "sum_list (map (val \<circ> snd) (zero_policy cs)) = 0"
  by (induction cs) (auto simp add: zero_policy_def)

lemma point_policy:
  assumes "ordered cs" and "a \<in> set (map_keys cs)"
  shows "map_keys (map_assign a (Fin 1) (zero_policy cs)) = map_keys cs"
    and "policy_sum (map_assign a (Fin 1) (zero_policy cs)) = Fin 1"
    and "probability_of (map_assign a (Fin 1) (zero_policy cs)) b = (if b = a then Fin 1 else Fin 0)"
proof -
  let ?P = "map_assign a (Fin 1) (zero_policy cs)"
  from assms(2) have mem: "a \<in> set (map_keys (zero_policy cs))"
    by (simp add: zero_policy_keys)
  from map_keys_map_assign_member [OF ordered_zero_policy [OF assms(1)] mem]
  show "map_keys ?P = map_keys cs"
    by (simp add: zero_policy_keys)
  have entries: "\<forall>e \<in> set (map snd ?P). isfinite e \<and> 0 \<le> val e"
    using map_assign_entries [of a "Fin 1" "zero_policy cs"] zero_policy_entries [of cs]
    by fastforce
  have mass: "(\<Sum>e \<leftarrow> map snd ?P. val e) = 1"
    by (simp add: mass_map_assign [OF ordered_zero_policy [OF assms(1)]]
        zero_policy_mass zero_policy_probability)
  from foldl_dadd_sum [OF entries, of 0] mass show "policy_sum ?P = Fin 1"
    by (simp add: policy_sum_def)
  show "probability_of ?P b = (if b = a then Fin 1 else Fin 0)"
    by (simp add: probability_of_map_assign zero_policy_probability)
qed

lemma one_minus_probability:
  assumes "dle (Fin 0) p" and "dle p (Fin 1)"
  shows "dsub (Fin 1) p = Fin (1 - val p)"
proof (cases p)
  case (Fin r)
  with assms have "0 \<le> r" "r \<le> 1" by (simp_all add: dle_def)
  then have "\<bar>r\<bar> < 2 ^ 64" by simp
  from dsub_Fin [OF _ this, of 1] Fin show ?thesis by simp
next
  case NegZero
  then show ?thesis by (simp add: dsub_def dadd_def)
qed (use assms in \<open>simp_all add: dle_def\<close>)

lemma mixed_policy:
  assumes "ordered cs" and "mx \<in> set (map_keys cs)" and "mn \<in> set (map_keys cs)"
    and "mn \<noteq> mx"
  shows "map_keys (map_assign mn q (map_assign mx p (zero_policy cs))) = map_keys cs"
    and "probability_of (map_assign mn q (map_assign mx p (zero_policy cs))) b
           = (if b = mn then q else if b = mx then p else Fin 0)"
    and "dle (Fin 0) p \<Longrightarrow> dle p (Fin 1) \<Longrightarrow>
         policy_sum (map_assign mn (dsub (Fin 1) p) (map_assign mx p (zero_policy cs))) = Fin 1"
proof -
  let ?Z = "zero_policy cs"
  have oz: "ordered ?Z" by (rule ordered_zero_policy [OF assms(1)])
  have k1: "map_keys (map_assign mx p ?Z) = map_keys cs"
    using map_keys_map_assign_member [OF oz, of mx p] assms(2) by (simp add: zero_policy_keys)
  have o1: "ordered (map_assign mx p ?Z)" by (rule ordered_map_assign [OF oz])
  show "map_keys (map_assign mn q (map_assign mx p ?Z)) = map_keys cs"
    using map_keys_map_assign_member [OF o1, of mn q] assms(3) k1 by simp
  show "probability_of (map_assign mn q (map_assign mx p ?Z)) b
           = (if b = mn then q else if b = mx then p else Fin 0)"
    by (simp add: probability_of_map_assign zero_policy_probability)
  assume p: "dle (Fin 0) p" "dle p (Fin 1)"
  let ?q = "dsub (Fin 1) p"
  let ?P = "map_assign mn ?q (map_assign mx p ?Z)"
  note fin = dle_zero_finite [OF p]
  note q = one_minus_probability [OF p]
  have "set (map snd ?P) \<subseteq> {?q, p, Fin 0}"
    using map_assign_entries [of mn ?q "map_assign mx p ?Z"]
      map_assign_entries [of mx p ?Z] zero_policy_entries [of cs]
    by blast
  with fin q have entries: "\<forall>e \<in> set (map snd ?P). isfinite e \<and> 0 \<le> val e"
    by auto
  have mass: "(\<Sum>e \<leftarrow> map snd ?P. val e) = 1"
    using assms(4) q
    by (simp add: mass_map_assign [OF o1] mass_map_assign [OF oz]
        probability_of_map_assign zero_policy_mass zero_policy_probability)
  from foldl_dadd_sum [OF entries, of 0] mass show "policy_sum ?P = Fin 1"
    by (simp add: policy_sum_def)
qed

section \<open>The steps of the greedy policy\<close>

lemma get_normalized_ucb_value_member:
  "get_normalized_ucb_value st a = Inr v \<Longrightarrow> a \<in> set (map_keys (ucb_statistics st))"
  by (auto simp add: get_normalized_ucb_value_def and_then_def Let_def
      split: sum.splits if_splits dest: map_at_Inr_member)

lemma ucb_values_loop_spec:
  "ucb_values_loop s kappa_local idxs = Inr vs \<Longrightarrow>
     length vs = length idxs \<and>
     set idxs \<subseteq> set (map_keys (ucb_statistics (reward_statistic s))) \<and>
     set idxs \<subseteq> set (map_keys (ucb_statistics (cost_statistic s)))"
proof (induction idxs arbitrary: vs)
  case Nil
  then show ?case by simp
next
  case (Cons i idxs)
  from Cons.prems obtain cn rn rest where
    c: "get_normalized_ucb_value (cost_statistic s) i = Inr cn"
    and r: "get_normalized_ucb_value (reward_statistic s) i = Inr rn"
    and l: "ucb_values_loop s kappa_local idxs = Inr rest"
    and v: "length vs = Suc (length rest)"
    by (auto simp add: and_then_def Let_def split: sum.splits)
  from Cons.IH [OF l] get_normalized_ucb_value_member [OF c]
    get_normalized_ucb_value_member [OF r] v
  show ?case by simp
qed

lemma calculate_ucb_values_spec:
  assumes "calculate_ucb_values s kappa_local = Inr vs"
  shows "length vs = length (ucb_statistics (reward_statistic s))"
    and "{0..<length vs} \<subseteq> set (map_keys (ucb_statistics (reward_statistic s)))"
    and "{0..<length vs} \<subseteq> set (map_keys (ucb_statistics (cost_statistic s)))"
proof -
  from assms have "ucb_values_loop s kappa_local
      [0..<length (ucb_statistics (reward_statistic s))] = Inr vs"
    by (simp add: calculate_ucb_values_def Let_def split: if_splits)
  from ucb_values_loop_spec [OF this]
  show "length vs = length (ucb_statistics (reward_statistic s))"
    and "{0..<length vs} \<subseteq> set (map_keys (ucb_statistics (reward_statistic s)))"
    and "{0..<length vs} \<subseteq> set (map_keys (ucb_statistics (cost_statistic s)))"
    by simp_all
qed




text \<open>
  The loop of the filter keeps exactly the actions whose distance to the largest value
  is within the bound, in their order.
\<close>

lemma filter_loop_spec:
  assumes "set idxs \<subseteq> set (map_keys (ucb_statistics (reward_statistic s)))"
  shows "filter_loop s vs max_val ncm factor idxs =
           Inr (filter
                  (\<lambda>i. dle (dabs (dsub (vs ! i) max_val))
                          (dmul factor
                             (if action_count (map_subscript (ucb_statistics (reward_statistic s)) i
                                                 UcbPair_init) = 0
                              then Fin DBL_MAX
                              else dadd (node_count_term
                                           (action_count
                                              (map_subscript (ucb_statistics (reward_statistic s)) i
                                                 UcbPair_init)))
                                        ncm)))
                  idxs)"
  using assms
proof (induction idxs)
  case Nil
  then show ?case by simp
next
  case (Cons i idxs)
  from Cons.prems obtain p where p: "map_at (ucb_statistics (reward_statistic s)) i = Inr p"
    by (meson list.set_intros(1) map_at_member subsetD)
  then have sub: "map_subscript (ucb_statistics (reward_statistic s)) i UcbPair_init = p"
    by (simp add: map_subscript_def)
  from Cons.prems have "set idxs \<subseteq> set (map_keys (ucb_statistics (reward_statistic s)))" by simp
  from Cons.IH [OF this] p sub show ?case
    by (simp add: and_then_def Let_def)
qed

text \<open>The extremes loop returns, with two of the actions it was given or started from.\<close>

lemma extremes_loop_total:
  assumes "set F \<subseteq> set (map_keys cs)" and "mx \<in> set (map_keys cs)" and "mn \<in> set (map_keys cs)"
  shows "\<exists>mx' mn'. extremes_loop cs F (mx, mn) = Inr (mx', mn') \<and>
           mx' \<in> insert mx (set F) \<and> mn' \<in> insert mn (set F)"
  using assms
proof (induction F arbitrary: mx mn)
  case Nil
  then show ?case by simp
next
  case (Cons f F)
  from Cons.prems obtain pf pmax pmin where
    at: "map_at cs f = Inr pf" "map_at cs mx = Inr pmax" "map_at cs mn = Inr pmin"
    by (meson list.set_intros(1) map_at_member subsetD)
  from Cons.prems have sub: "set F \<subseteq> set (map_keys cs)" and fk: "f \<in> set (map_keys cs)"
    by auto
  consider (up) "dgt (action_value pf) (action_value pmax)"
    | (down) "\<not> dgt (action_value pf) (action_value pmax)" "dlt (action_value pf) (action_value pmin)"
    | (keep) "\<not> dgt (action_value pf) (action_value pmax)" "\<not> dlt (action_value pf) (action_value pmin)"
    by blast
  then show ?case
  proof cases
    case up
    from Cons.IH [OF sub fk Cons.prems(3)] obtain mx' mn' where
      "extremes_loop cs F (f, mn) = Inr (mx', mn')" "mx' \<in> insert f (set F)"
      "mn' \<in> insert mn (set F)" by blast
    with at up show ?thesis by (auto simp add: and_then_def)
  next
    case down
    from Cons.IH [OF sub Cons.prems(2) fk] obtain mx' mn' where
      "extremes_loop cs F (mx, f) = Inr (mx', mn')" "mx' \<in> insert mx (set F)"
      "mn' \<in> insert f (set F)" by blast
    with at down show ?thesis by (auto simp add: and_then_def)
  next
    case keep
    from Cons.IH [OF sub Cons.prems(2,3)] obtain mx' mn' where
      "extremes_loop cs F (mx, mn) = Inr (mx', mn')" "mx' \<in> insert mx (set F)"
      "mn' \<in> insert mn (set F)" by blast
    with at keep show ?thesis by (auto simp add: and_then_def)
  qed
qed

text \<open>
  When none of the cost estimates involved is a NaN, the two actions are of largest and
  of smallest cost estimate.
\<close>

lemma extremes_loop_extremal:
  assumes "extremes_loop (ucb_statistics (cost_statistic s)) F (mx, mn) = Inr (mx', mn')"
    and "\<forall>f \<in> insert mx (insert mn (set F)). \<not> isnan (cost_value s f)"
    and "dle (cost_value s mn) (cost_value s mx)"
  shows "dle (cost_value s mx) (cost_value s mx') \<and> dle (cost_value s mn') (cost_value s mn) \<and>
         (\<forall>f \<in> set F. dle (cost_value s mn') (cost_value s f) \<and>
                       dle (cost_value s f) (cost_value s mx'))"
  using assms
proof (induction F arbitrary: mx mn)
  case Nil
  then show ?case by (simp add: dle_refl)
next
  case (Cons f F)
  let ?cs = "ucb_statistics (cost_statistic s)"
  from Cons.prems(1) obtain pf pmax where
    at: "map_at ?cs f = Inr pf" "map_at ?cs mx = Inr pmax"
    by (auto simp add: and_then_def split: sum.splits)
  note cv = cost_value_at [OF at(1)] cost_value_at [OF at(2)]
  from Cons.prems(2) have nn: "\<not> isnan (cost_value s f)" "\<not> isnan (cost_value s mx)"
    "\<not> isnan (cost_value s mn)" by simp_all
  show ?case
  proof (cases "dgt (action_value pf) (action_value pmax)")
    case True
    with Cons.prems(1) at have run: "extremes_loop ?cs F (f, mn) = Inr (mx', mn')"
      by (simp add: and_then_def)
    from True cv have up: "dlt (cost_value s mx) (cost_value s f)" by simp
    from dle_dlt_trans [OF Cons.prems(3) up] have le: "dle (cost_value s mn) (cost_value s f)"
      by (rule dlt_imp_dle)
    from Cons.prems(2) have nan: "\<forall>g \<in> insert f (insert mn (set F)). \<not> isnan (cost_value s g)"
      by simp
    from Cons.IH [OF run nan le] have ih: "dle (cost_value s f) (cost_value s mx')"
      "dle (cost_value s mn') (cost_value s mn)"
      "\<forall>g \<in> set F. dle (cost_value s mn') (cost_value s g) \<and> dle (cost_value s g) (cost_value s mx')"
      by simp_all
    from dle_trans [OF dlt_imp_dle [OF up] ih(1)] dle_trans [OF ih(2) le] ih
    show ?thesis by simp
  next
    case False
    with cv nn have fle: "dle (cost_value s f) (cost_value s mx)" by (simp add: not_dlt_iff)
    from Cons.prems(1) at False obtain pmin where pmin: "map_at ?cs mn = Inr pmin"
      by (auto simp add: and_then_def split: sum.splits)
    note cm = cost_value_at [OF pmin]
    show ?thesis
    proof (cases "dlt (action_value pf) (action_value pmin)")
      case True
      with Cons.prems(1) at False pmin have run: "extremes_loop ?cs F (mx, f) = Inr (mx', mn')"
        by (simp add: and_then_def)
      from True cv cm have down: "dlt (cost_value s f) (cost_value s mn)" by simp
      from Cons.prems(2) have nan: "\<forall>g \<in> insert mx (insert f (set F)). \<not> isnan (cost_value s g)"
        by simp
      from Cons.IH [OF run nan fle] have ih: "dle (cost_value s mx) (cost_value s mx')"
        "dle (cost_value s mn') (cost_value s f)"
        "\<forall>g \<in> set F. dle (cost_value s mn') (cost_value s g) \<and> dle (cost_value s g) (cost_value s mx')"
        by simp_all
      from dle_trans [OF ih(2) dlt_imp_dle [OF down]] dle_trans [OF fle ih(1)] ih
      show ?thesis by simp
    next
      case keep: False
      with Cons.prems(1) at False pmin have run: "extremes_loop ?cs F (mx, mn) = Inr (mx', mn')"
        by (simp add: and_then_def)
      from keep cv cm nn have mle: "dle (cost_value s mn) (cost_value s f)"
        by (simp add: not_dlt_iff)
      from Cons.prems(2) have nan: "\<forall>g \<in> insert mx (insert mn (set F)). \<not> isnan (cost_value s g)"
        by simp
      from Cons.IH [OF run nan Cons.prems(3)] have ih: "dle (cost_value s mx) (cost_value s mx')"
        "dle (cost_value s mn') (cost_value s mn)"
        "\<forall>g \<in> set F. dle (cost_value s mn') (cost_value s g) \<and> dle (cost_value s g) (cost_value s mx')"
        by simp_all
      from dle_trans [OF ih(2) mle] dle_trans [OF fle ih(1)] ih
      show ?thesis by simp
    qed
  qed
qed

text \<open>What \<^verbatim>\<open>solve_LP_and_sample\<close> returns, given the two actions its first loop ends on.\<close>

lemma solve_LP_and_sample_result:
  assumes "extremes_loop (ucb_statistics (cost_statistic s)) (first # rest) (first, first) = Inr (mx, mn)"
    and "map_at (ucb_statistics (cost_statistic s)) mx = Inr pmax"
    and "map_at (ucb_statistics (cost_statistic s)) mn = Inr pmin"
  shows "solve_LP_and_sample s (first # rest) g =
     (if mn = mx \<or> dge (action_value pmin) (cost_constraint s)
      then Inr ((mn, map_assign mn (Fin 1) (zero_policy (ucb_statistics (cost_statistic s)))), g)
      else if dle (action_value pmax) (cost_constraint s)
      then Inr ((mx, map_assign mx (Fin 1) (zero_policy (ucb_statistics (cost_statistic s)))), g)
      else Inr ((if dle (Fin (shd g))
                      (ddiv (dsub (cost_constraint s) (action_value pmin))
                            (dsub (action_value pmax) (action_value pmin)))
                 then mx else mn,
                 map_assign mn
                   (dsub (Fin 1) (ddiv (dsub (cost_constraint s) (action_value pmin))
                                       (dsub (action_value pmax) (action_value pmin))))
                   (map_assign mx (ddiv (dsub (cost_constraint s) (action_value pmin))
                                        (dsub (action_value pmax) (action_value pmin)))
                      (zero_policy (ucb_statistics (cost_statistic s))))),
                stl g))"
  using assms by (simp add: solve_LP_and_sample_def and_then_def Let_def)

text \<open>
  The LP step on a non-empty list of expanded actions: it returns, with two feasible
  actions \<open>a_max\<close> and \<open>a_min\<close>, of largest and smallest cost estimate when no estimate
  is a NaN, and decides between its cases by comparing their estimates with the
  constraint. Only the last case reads the random generator.
\<close>

lemma solve_LP_and_sample_form:
  assumes "F \<noteq> []" and "set F \<subseteq> set (map_keys (ucb_statistics (cost_statistic s)))"
  shows "\<exists>a_max a_min.
      a_max \<in> set F \<and> a_min \<in> set F \<and>
      a_max \<in> set (map_keys (ucb_statistics (cost_statistic s))) \<and>
      a_min \<in> set (map_keys (ucb_statistics (cost_statistic s))) \<and>
      ((\<forall>a \<in> set F. \<not> isnan (cost_value s a)) \<longrightarrow>
         (\<forall>a \<in> set F. dle (cost_value s a_min) (cost_value s a) \<and>
                       dle (cost_value s a) (cost_value s a_max))) \<and>
      (\<forall>g. solve_LP_and_sample s F g =
         (if a_min = a_max \<or> dge (cost_value s a_min) (cost_constraint s)
          then Inr ((a_min, map_assign a_min (Fin 1) (zero_policy (ucb_statistics (cost_statistic s)))), g)
          else if dle (cost_value s a_max) (cost_constraint s)
          then Inr ((a_max, map_assign a_max (Fin 1) (zero_policy (ucb_statistics (cost_statistic s)))), g)
          else Inr ((if dle (Fin (shd g))
                          (ddiv (dsub (cost_constraint s) (cost_value s a_min))
                                (dsub (cost_value s a_max) (cost_value s a_min)))
                     then a_max else a_min,
                     map_assign a_min
                       (dsub (Fin 1) (ddiv (dsub (cost_constraint s) (cost_value s a_min))
                                           (dsub (cost_value s a_max) (cost_value s a_min))))
                       (map_assign a_max (ddiv (dsub (cost_constraint s) (cost_value s a_min))
                                               (dsub (cost_value s a_max) (cost_value s a_min)))
                          (zero_policy (ucb_statistics (cost_statistic s))))),
                    stl g)))"
proof -
  let ?cs = "ucb_statistics (cost_statistic s)"
  from assms(1) obtain first rest where F: "F = first # rest" by (cases F) auto
  with assms(2) have h: "first \<in> set (map_keys ?cs)" by simp
  from extremes_loop_total [OF assms(2) h h] F
  obtain mx mn where r: "extremes_loop ?cs (first # rest) (first, first) = Inr (mx, mn)"
    and m: "mx \<in> set F" "mn \<in> set F"
    by auto
  with assms(2) have keys: "mx \<in> set (map_keys ?cs)" "mn \<in> set (map_keys ?cs)" by auto
  then obtain pmax pmin where at: "map_at ?cs mx = Inr pmax" "map_at ?cs mn = Inr pmin"
    by (meson map_at_member)
  note cv = cost_value_at [OF at(1)] cost_value_at [OF at(2)]
  have ext: "(\<forall>a \<in> set F. \<not> isnan (cost_value s a)) \<longrightarrow>
         (\<forall>a \<in> set F. dle (cost_value s mn) (cost_value s a) \<and>
                       dle (cost_value s a) (cost_value s mx))"
  proof
    assume nn: "\<forall>a \<in> set F. \<not> isnan (cost_value s a)"
    with F have n1: "\<forall>f \<in> insert first (insert first (set (first # rest))). \<not> isnan (cost_value s f)"
      by simp
    from nn F have "dle (cost_value s first) (cost_value s first)" by (simp add: dle_refl)
    from extremes_loop_extremal [OF r n1 this] F
    show "\<forall>a \<in> set F. dle (cost_value s mn) (cost_value s a) \<and>
                       dle (cost_value s a) (cost_value s mx)"
      by simp
  qed
  from solve_LP_and_sample_result [OF r at] cv F
  have "\<forall>g. solve_LP_and_sample s F g =
         (if mn = mx \<or> dge (cost_value s mn) (cost_constraint s)
          then Inr ((mn, map_assign mn (Fin 1) (zero_policy ?cs)), g)
          else if dle (cost_value s mx) (cost_constraint s)
          then Inr ((mx, map_assign mx (Fin 1) (zero_policy ?cs)), g)
          else Inr ((if dle (Fin (shd g))
                          (ddiv (dsub (cost_constraint s) (cost_value s mn))
                                (dsub (cost_value s mx) (cost_value s mn)))
                     then mx else mn,
                     map_assign mn
                       (dsub (Fin 1) (ddiv (dsub (cost_constraint s) (cost_value s mn))
                                           (dsub (cost_value s mx) (cost_value s mn))))
                       (map_assign mx (ddiv (dsub (cost_constraint s) (cost_value s mn))
                                            (dsub (cost_value s mx) (cost_value s mn)))
                          (zero_policy ?cs))),
                    stl g))"
    by simp
  with m keys ext show ?thesis by blast
qed

text \<open>The greedy policy is the LP step on the list the filter returns.\<close>

lemma greedy_policy_steps:
  assumes "calculate_ucb_values s kappa_local = Inr vs"
    and "filter_feasible_actions s vs factor = Inr F"
  shows "greedy_policy s kappa_local factor g = solve_LP_and_sample s F g"
    and "set F \<subseteq> set (map_keys (ucb_statistics (cost_statistic s)))"
proof -
  show "greedy_policy s kappa_local factor g = solve_LP_and_sample s F g"
    using assms by (simp add: greedy_policy_def and_then_def)
  note cs = calculate_ucb_values_spec [OF assms(1)]
  from cs(2) have sub: "set [0..<length vs] \<subseteq> set (map_keys (ucb_statistics (reward_statistic s)))"
    by simp
  from assms(2) obtain mv ncm where "filter_loop s vs mv ncm factor [0..<length vs] = Inr F"
    by (auto simp add: filter_feasible_actions_def and_then_def Let_def
        split: if_splits sum.splits)
  with filter_loop_spec [OF sub, of vs mv ncm factor] have "set F \<subseteq> {0..<length vs}"
    by auto
  with cs(3) show "set F \<subseteq> set (map_keys (ucb_statistics (cost_statistic s)))" by blast
qed


section \<open>The terms over the counters\<close>

text \<open>
  For counters that are not zero, \<open>sqrt(log(N) / n)\<close> is a finite number that is not
  negative, and below one when the two counters are the same.
\<close>

lemma counter_root:
  assumes "N \<noteq> 0" and "n \<noteq> 0"
  shows "dsqrt (ddiv (dlog (of_u32 N)) (of_u32 n))
           = Fin (sqrt (ln (val (of_u32 N)) / val (of_u32 n)))"
    and "0 \<le> ln (val (of_u32 N)) / val (of_u32 n)"
proof -
  let ?N = "val (of_u32 N)" and ?n = "val (of_u32 n)"
  have "unat N \<noteq> 0" "unat n \<noteq> 0" using assms by (simp_all add: unat_eq_0)
  then have "1 \<le> unat N" "1 \<le> unat n" by linarith+
  then have one: "1 \<le> ?N" "1 \<le> ?n" unfolding of_u32_def val.simps by linarith+
  have "unat N < 2 ^ 32" using unsigned_less [of N] by simp
  then have "real (unat N) < real (2 ^ 32)" by (simp only: of_nat_less_iff)
  then have "real (unat N) < 2 ^ 32" by simp
  then have big: "?N < 2 ^ 32" unfolding of_u32_def val.simps .
  from one have l0: "0 \<le> ln ?N" by simp
  from one have "ln ?N \<le> ?N - 1" by (intro ln_le_minus_one) simp
  with big have l1: "ln ?N < 2 ^ 32" by simp
  from l0 one show q0: "0 \<le> ln ?N / ?n" by simp
  from one l0 have "ln ?N / ?n \<le> ln ?N / 1" by (intro divide_left_mono) simp_all
  with l1 have q1: "ln ?N / ?n < 2 ^ 32" by simp
  have log: "dlog (of_u32 N) = Fin (ln ?N)"
    using one by (simp add: of_u32_def)
  have quot: "ddiv (Fin (ln ?N)) (of_u32 n) = Fin (ln ?N / ?n)"
  proof (cases "ln ?N / ?n = 0")
    case True
    with one l0 show ?thesis
      by (simp add: ddiv_def of_u32_simps assms zero_of_def of_u32_def)
  next
    case False
    from q0 q1 have "\<bar>ln ?N / ?n\<bar> < 2 ^ 65" by simp
    from overflow_small [OF this] False one show ?thesis
      by (simp add: ddiv_def of_u32_simps assms of_u32_def)
  qed
  from q0 show "dsqrt (ddiv (dlog (of_u32 N)) (of_u32 n)) = Fin (sqrt (ln ?N / ?n))"
    by (simp add: log quot)
qed

lemma node_count_term_value:
  assumes "n \<noteq> 0"
  shows "\<exists>r. node_count_term n = Fin r \<and> 0 \<le> r \<and> r < 1 \<and> (n \<noteq> 1 \<longrightarrow> 0 < r)"
proof -
  let ?n = "val (of_u32 n)"
  note cr = counter_root [OF assms assms]
  have "unat n \<noteq> 0" using assms by (simp add: unat_eq_0)
  then have "1 \<le> unat n" by linarith
  then have one: "1 \<le> ?n" unfolding of_u32_def val.simps by linarith
  then have "ln ?n \<le> ?n - 1" by (intro ln_le_minus_one) simp
  with one have "ln ?n / ?n < 1" by simp
  then have lt: "sqrt (ln ?n / ?n) < 1" by simp
  have pos: "n \<noteq> 1 \<longrightarrow> 0 < sqrt (ln ?n / ?n)"
  proof
    assume "n \<noteq> 1"
    then have "unat n \<noteq> 1" by (metis unat_1 word_unat_eq_iff)
    with \<open>1 \<le> unat n\<close> have "2 \<le> unat n" by linarith
    then have "2 \<le> ?n" unfolding of_u32_def val.simps by linarith
    then have "0 < ln ?n" by simp
    with one have "0 < ln ?n / ?n" by simp
    then show "0 < sqrt (ln ?n / ?n)" by simp
  qed
  from cr lt pos show ?thesis by (simp add: node_count_term_def)
qed

lemma node_count_term_1: "node_count_term 1 = Fin 0"
  using counter_root(1) [of 1 1] by (simp add: node_count_term_def of_u32_def)

lemma exploration_term_zero:
  assumes "N \<noteq> 0" and "n \<noteq> 0"
  shows "exploration_term (Fin 0) N n = Fin 0"
  using counter_root [OF assms] by (simp add: exploration_term_def dmul_def zero_of_def)



section \<open>The example states, evaluated\<close>

lemma dsub_NegZero: "dsub a NegZero = dadd a (Fin 0)"
  by (simp add: dsub_def)

lemmas double_arith = dadd_Fin dsub_Fin dmul_Fin ddiv_Fin dsub_NegZero zero_of_def dle_def dlt_def

lemma root_example_values:
  "calculate_ucb_values root_example (Fin 0) = Inr [Fin (1 / 10), Fin (1 / 10)]"
  by (simp add: calculate_ucb_values_def root_example_def and_then_def
      get_normalized_ucb_value_def exploration_term_zero Let_def upt_rec double_arith)

lemma root_example_filter:
  "filter_feasible_actions root_example [Fin (1 / 10), Fin (1 / 10)] (Fin 1) = Inr [0, 1]"
  by (simp add: filter_feasible_actions_def root_example_def and_then_def max_element_def
      node_count_term_1 Let_def upt_rec double_arith)



lemma unvisited_example_values:
  "calculate_ucb_values unvisited_example (Fin 10) = Inr [PInf]"
proof -
  have "exploration_term (Fin 10) 3 0 = PInf"
    by (simp add: exploration_term_def of_u32_def ddiv_def dmul_def inf_of_def)
  then show ?thesis
    by (simp add: calculate_ucb_values_def unvisited_example_def single_example_def and_then_def
        get_normalized_ucb_value_def Let_def upt_rec double_arith dadd_def)
qed

lemma unvisited_example_filter:
  "filter_feasible_actions unvisited_example [PInf] factor = Inr []"
  by (simp add: filter_feasible_actions_def unvisited_example_def single_example_def
      and_then_def max_element_def Let_def upt_rec dsub_def dadd_def dle_def)

lemma root_example_solve:
  "solve_LP_and_sample root_example [0, 1] g =
     Inr ((if shd g \<le> 4 / 5 then 1 else 0, [(0, Fin (1 / 5)), (1, Fin (4 / 5))]), stl g)"
  unfolding solve_LP_and_sample_def
  by (simp add: root_example_def and_then_def zero_policy_def Let_def double_arith)

lemma root_example_greedy:
  "greedy_policy root_example (Fin 0) (Fin 1) g =
     Inr ((if shd g \<le> 4 / 5 then 1 else 0, [(0, Fin (1 / 5)), (1, Fin (4 / 5))]), stl g)"
  by (simp only: greedy_policy_def root_example_values root_example_filter root_example_solve
      and_then_def sum.case)

lemma root_example_factor: "action_filter_factor root_example = Fin 1"
  by (simp add: root_example_def)

lemma root_example_best_action:
  "cc_get_best_action root_example g = Inr (if shd g \<le> 4 / 5 then 1 else 0, stl g)"
  by (simp add: cc_get_best_action_def root_example_factor root_example_greedy and_then_def)

lemma adapter_example_values:
  "calculate_ucb_values adapter_example (Fin 0) = Inr [Fin (- (1 / 40)), Fin (- (3 / 8))]"
  by (simp add: calculate_ucb_values_def adapter_example_def and_then_def
      get_normalized_ucb_value_def exploration_term_zero Let_def upt_rec double_arith)

lemma adapter_example_filter:
  "filter_feasible_actions adapter_example [Fin (- (1 / 40)), Fin (- (3 / 8))] (Fin 0) = Inr [0]"
proof -
  from node_count_term_value [of 2] obtain t where
    t: "node_count_term 2 = Fin t" "0 < t" "t < 1" by auto
  then have small: "\<bar>t\<bar> < 2 ^ 64" by simp
  from t have sum: "dadd (Fin t) (Fin t) = Fin (2 * t)" by (simp add: dadd_Fin [OF small small])
  from t have prod: "dmul (Fin 0) (Fin (2 * t)) = Fin 0"
    by (simp add: dmul_Fin zero_of_def)
  show ?thesis
    using t by (simp add: filter_feasible_actions_def adapter_example_def and_then_def
        max_element_def Let_def upt_rec sum prod dsub_Fin dle_def dlt_def)
qed

lemma adapter_example_greedy:
  "greedy_policy adapter_example (Fin 0) (Fin 0) g = Inr ((0, [(0, Fin 1), (1, Fin 0)]), g)"
proof -
  have "solve_LP_and_sample adapter_example [0] g = Inr ((0, [(0, Fin 1), (1, Fin 0)]), g)"
    unfolding solve_LP_and_sample_def
    by (simp add: adapter_example_def and_then_def zero_policy_def Let_def double_arith)
  then show ?thesis
    by (simp only: greedy_policy_def adapter_example_values adapter_example_filter
        and_then_def sum.case)
qed

lemma root_example_filter_0:
  "filter_feasible_actions root_example [Fin (1 / 10), Fin (1 / 10)] (Fin 0) = Inr [0, 1]"
  by (simp add: filter_feasible_actions_def root_example_def and_then_def max_element_def
      node_count_term_1 Let_def upt_rec double_arith)

lemma root_example_greedy_0:
  "greedy_policy root_example (Fin 0) (Fin 0) g =
     Inr ((if shd g \<le> 4 / 5 then 1 else 0, [(0, Fin (1 / 5)), (1, Fin (4 / 5))]), stl g)"
  by (simp only: greedy_policy_def root_example_values root_example_filter_0 root_example_solve
      and_then_def sum.case)

section \<open>The filter and the largest value\<close>




section \<open>The LP step\<close>

lemma steps_example_greedy:
  "greedy_policy (run steps_example leaf_example) kappa_local factor g = Inl OutOfRange"
proof -
  let ?s = "run steps_example leaf_example"
  from steps_example_run have k: "map_keys (ucb_statistics (reward_statistic ?s)) = [1]"
    "map_keys (ucb_statistics (cost_statistic ?s)) = [1]" by simp_all
  then have "length (map_keys (ucb_statistics (reward_statistic ?s))) = 1"
    "length (map_keys (ucb_statistics (cost_statistic ?s))) = 1" by simp_all
  then have len: "length (ucb_statistics (reward_statistic ?s)) = 1"
    "length (ucb_statistics (cost_statistic ?s)) = 1" by simp_all
  from k have "0 \<notin> set (map_keys (ucb_statistics (cost_statistic ?s)))" by simp
  from map_at_absent [OF this]
  have "get_normalized_ucb_value (cost_statistic ?s) 0 = Inl OutOfRange"
    by (simp add: get_normalized_ucb_value_def and_then_def)
  with len have "calculate_ucb_values ?s kappa_local = Inl OutOfRange"
    by (simp add: calculate_ucb_values_def and_then_def Let_def)
  then show ?thesis by (simp add: greedy_policy_def and_then_def)
qed

text \<open>
  Claim C1, as the code has it. Whenever \<^verbatim>\<open>calculate_ucb_values\<close> returns and
  \<^verbatim>\<open>filter_feasible_actions\<close> returns a list that is not empty, \<^verbatim>\<open>greedy_policy\<close>
  returns a policy over all expanded actions. There are feasible actions \<open>a_max\<close> and
  \<open>a_min\<close>, of largest and smallest cost estimate among the feasible actions when none
  of these estimates is a NaN, such that the policy is zero outside \<open>{a_max, a_min}\<close> and
  the selected action is one of the two. If \<open>a_max = a_min\<close>, or else if the smallest
  cost estimate is at least the constraint, \<open>a_min\<close> has probability \<open>1\<close>; else if the
  largest cost estimate is at most the constraint \<open>a_max\<close> has probability \<open>1\<close>; in both
  cases the policy sums to \<open>1\<close>. Otherwise \<open>a_max\<close> has probability
  \<open>p = (C_max - cost a_min) / (cost a_max - cost a_min)\<close> and \<open>a_min\<close> has \<open>1 - p\<close>, and the
  policy sums to \<open>1\<close> whenever \<open>0 \<le> p \<le> 1\<close> (\<open>p\<close> is a NaN when the constraint is one, or
  when both differences are infinite).
\<close>

theorem greedy_policy_is_LP_policy:
  assumes "ordered (ucb_statistics (cost_statistic s))"
    and "calculate_ucb_values s kappa_local = Inr values"
    and "filter_feasible_actions s values action_filter_factor_local = Inr feasible_actions"
    and "feasible_actions \<noteq> []"
  shows "\<exists>a_max a_min selected policy g'.
      greedy_policy s kappa_local action_filter_factor_local g = Inr ((selected, policy), g') \<and>
      a_max \<in> set feasible_actions \<and> a_min \<in> set feasible_actions \<and>
      ((\<forall>a \<in> set feasible_actions. \<not> isnan (cost_value s a)) \<longrightarrow>
         (\<forall>a \<in> set feasible_actions.
            dle (cost_value s a_min) (cost_value s a) \<and> dle (cost_value s a) (cost_value s a_max))) \<and>
      map_keys policy = map_keys (ucb_statistics (cost_statistic s)) \<and>
      (\<forall>a. a \<notin> {a_max, a_min} \<longrightarrow> probability_of policy a = Fin 0) \<and>
      selected \<in> {a_max, a_min} \<and>
      (if a_max = a_min \<or> dge (cost_value s a_min) (cost_constraint s)
       then probability_of policy a_min = Fin 1 \<and>
            (a_max \<noteq> a_min \<longrightarrow> probability_of policy a_max = Fin 0) \<and>
            policy_sum policy = Fin 1
       else if dle (cost_value s a_max) (cost_constraint s)
       then probability_of policy a_max = Fin 1 \<and> probability_of policy a_min = Fin 0 \<and>
            policy_sum policy = Fin 1
       else probability_of policy a_max
              = ddiv (dsub (cost_constraint s) (cost_value s a_min))
                     (dsub (cost_value s a_max) (cost_value s a_min)) \<and>
            probability_of policy a_min
              = dsub (Fin 1) (ddiv (dsub (cost_constraint s) (cost_value s a_min))
                                   (dsub (cost_value s a_max) (cost_value s a_min))) \<and>
            (dle (Fin 0) (ddiv (dsub (cost_constraint s) (cost_value s a_min))
                               (dsub (cost_value s a_max) (cost_value s a_min))) \<and>
             dle (ddiv (dsub (cost_constraint s) (cost_value s a_min))
                       (dsub (cost_value s a_max) (cost_value s a_min))) (Fin 1)
               \<longrightarrow> policy_sum policy = Fin 1))"
proof -
  let ?cs = "ucb_statistics (cost_statistic s)"
  let ?F = feasible_actions
  note steps = greedy_policy_steps [OF assms(2,3)]
  from solve_LP_and_sample_form [OF assms(4) steps(2)]
  obtain mx mn where mf: "mx \<in> set ?F" "mn \<in> set ?F"
    and keys: "mx \<in> set (map_keys ?cs)" "mn \<in> set (map_keys ?cs)"
    and ext: "(\<forall>a \<in> set ?F. \<not> isnan (cost_value s a)) \<longrightarrow>
         (\<forall>a \<in> set ?F. dle (cost_value s mn) (cost_value s a) \<and>
                         dle (cost_value s a) (cost_value s mx))"
    and form: "\<forall>g. solve_LP_and_sample s ?F g =
         (if mn = mx \<or> dge (cost_value s mn) (cost_constraint s)
          then Inr ((mn, map_assign mn (Fin 1) (zero_policy ?cs)), g)
          else if dle (cost_value s mx) (cost_constraint s)
          then Inr ((mx, map_assign mx (Fin 1) (zero_policy ?cs)), g)
          else Inr ((if dle (Fin (shd g))
                          (ddiv (dsub (cost_constraint s) (cost_value s mn))
                                (dsub (cost_value s mx) (cost_value s mn)))
                     then mx else mn,
                     map_assign mn
                       (dsub (Fin 1) (ddiv (dsub (cost_constraint s) (cost_value s mn))
                                           (dsub (cost_value s mx) (cost_value s mn))))
                       (map_assign mx (ddiv (dsub (cost_constraint s) (cost_value s mn))
                                            (dsub (cost_value s mx) (cost_value s mn)))
                          (zero_policy ?cs))),
                    stl g))"
    by blast
  let ?p = "ddiv (dsub (cost_constraint s) (cost_value s mn))
                 (dsub (cost_value s mx) (cost_value s mn))"
  note pmn = point_policy [OF assms(1) keys(2)]
  note pmx = point_policy [OF assms(1) keys(1)]
  consider (low) "mn = mx \<or> dge (cost_value s mn) (cost_constraint s)"
    | (high) "\<not> (mn = mx \<or> dge (cost_value s mn) (cost_constraint s))"
        "dle (cost_value s mx) (cost_constraint s)"
    | (mixed) "\<not> (mn = mx \<or> dge (cost_value s mn) (cost_constraint s))"
        "\<not> dle (cost_value s mx) (cost_constraint s)"
    by blast
  then show ?thesis
  proof cases
    case low
    with form steps(1) have "greedy_policy s kappa_local action_filter_factor_local g
        = Inr ((mn, map_assign mn (Fin 1) (zero_policy ?cs)), g)"
      by simp
    with low mf ext pmn show ?thesis
      by (intro exI [of _ mx] exI [of _ mn] exI [of _ mn]
          exI [of _ "map_assign mn (Fin 1) (zero_policy ?cs)"] exI [of _ g]) auto
  next
    case high
    with form steps(1) have "greedy_policy s kappa_local action_filter_factor_local g
        = Inr ((mx, map_assign mx (Fin 1) (zero_policy ?cs)), g)"
      by simp
    with high mf ext pmx show ?thesis
      by (intro exI [of _ mx] exI [of _ mn] exI [of _ mx]
          exI [of _ "map_assign mx (Fin 1) (zero_policy ?cs)"] exI [of _ g]) auto
  next
    case mixed
    let ?P = "map_assign mn (dsub (Fin 1) ?p) (map_assign mx ?p (zero_policy ?cs))"
    let ?sel = "if dle (Fin (shd g)) ?p then mx else mn"
    from mixed have ne: "mn \<noteq> mx" by simp
    from mixed form steps(1)
    have "greedy_policy s kappa_local action_filter_factor_local g = Inr ((?sel, ?P), stl g)"
      by simp
    with mixed mf ext mixed_policy(1,2) [OF assms(1) keys ne, of "dsub (Fin 1) ?p" ?p]
      mixed_policy(3) [OF assms(1) keys ne, of ?p]
    show ?thesis
      by (intro exI [of _ mx] exI [of _ mn] exI [of _ ?sel] exI [of _ ?P] exI [of _ "stl g"]) auto
  qed
qed

text \<open>
  After its first two visits the node of \<open>steps_example\<close> has one expanded action, the
  action \<open>1\<close>; \<^verbatim>\<open>calculate_ucb_values\<close> reads the statistics of the action \<open>0\<close> with
  \<^verbatim>\<open>.at()\<close> and throws, so \<^verbatim>\<open>greedy_policy\<close> returns no distribution. On the node whose
  single expanded action has an infinite UCB value the feasible list is empty and the LP
  step throws.
\<close>

theorem greedy_policy_throws_with_expanded_action:
  "map_keys (ucb_statistics (reward_statistic (run steps_example leaf_example))) = [1] \<and>
   map_keys (ucb_statistics (cost_statistic (run steps_example leaf_example))) = [1] \<and>
   greedy_policy (run steps_example leaf_example) (Fin 0) (Fin 1) (sconst 0) = Inl OutOfRange \<and>
   map_keys (ucb_statistics (cost_statistic unvisited_example)) = [0] \<and>
   greedy_policy unvisited_example (Fin 10) (Fin 1) (sconst 0) = Inl OutOfRange"
proof -
  have "greedy_policy unvisited_example (Fin 10) (Fin 1) (sconst 0) = Inl OutOfRange"
    by (simp add: greedy_policy_def unvisited_example_values unvisited_example_filter
        and_then_def solve_LP_and_sample_def)
  moreover have "map_keys (ucb_statistics (cost_statistic unvisited_example)) = [0]"
    by (simp add: unvisited_example_def)
  ultimately show ?thesis using steps_example_run steps_example_greedy by simp
qed

theorem greedy_policy_is_LP_policy_witness:
  "ordered (ucb_statistics (cost_statistic root_example)) \<and>
   calculate_ucb_values root_example (Fin 0) = Inr [Fin (1 / 10), Fin (1 / 10)] \<and>
   filter_feasible_actions root_example [Fin (1 / 10), Fin (1 / 10)] (Fin 1) = Inr [0, 1] \<and>
   greedy_policy root_example (Fin 0) (Fin 1) (sconst (1 / 2))
     = Inr ((1, [(0, Fin (1 / 5)), (1, Fin (4 / 5))]), sconst (1 / 2)) \<and>
   cost_value root_example 0 = Fin 0 \<and> cost_value root_example 1 = Fin 1 \<and>
   cost_constraint root_example = Fin (4 / 5) \<and>
   ddiv (dsub (Fin (4 / 5)) (Fin 0)) (dsub (Fin 1) (Fin 0)) = Fin (4 / 5) \<and>
   policy_sum [(0, Fin (1 / 5)), (1, Fin (4 / 5))] = Fin 1"
proof -
  have o: "ordered (ucb_statistics (cost_statistic root_example))"
    and c: "cost_value root_example 0 = Fin 0" "cost_value root_example 1 = Fin 1"
           "cost_constraint root_example = Fin (4 / 5)"
    by (simp_all add: root_example_def cost_value_def map_subscript_def)
  have r: "greedy_policy root_example (Fin 0) (Fin 1) (sconst (1 / 2))
             = Inr ((1, [(0, Fin (1 / 5)), (1, Fin (4 / 5))]), sconst (1 / 2))"
    using root_example_greedy [of "sconst (1 / 2)"] by simp
  have n: "[0, 1] \<noteq> ([] :: nat list)" by simp
  have p: "ddiv (dsub (Fin (4 / 5)) (Fin 0)) (dsub (Fin 1) (Fin 0)) = Fin (4 / 5)"
    by (simp add: double_arith)
  from greedy_policy_is_LP_policy [OF o root_example_values root_example_filter n,
      of "sconst (1 / 2)"]
  obtain a_max a_min selected policy g' where
    gp: "greedy_policy root_example (Fin 0) (Fin 1) (sconst (1 / 2)) = Inr ((selected, policy), g')"
    and m: "a_max \<in> set [0, 1]" "a_min \<in> set [0, 1]"
    and e: "(\<forall>a \<in> set [0, 1]. \<not> isnan (cost_value root_example a)) \<longrightarrow>
         (\<forall>a \<in> set [0, 1].
            dle (cost_value root_example a_min) (cost_value root_example a) \<and>
            dle (cost_value root_example a) (cost_value root_example a_max))"
    and rule: "if a_max = a_min \<or> dge (cost_value root_example a_min) (cost_constraint root_example)
       then probability_of policy a_min = Fin 1 \<and>
            (a_max \<noteq> a_min \<longrightarrow> probability_of policy a_max = Fin 0) \<and>
            policy_sum policy = Fin 1
       else if dle (cost_value root_example a_max) (cost_constraint root_example)
       then probability_of policy a_max = Fin 1 \<and> probability_of policy a_min = Fin 0 \<and>
            policy_sum policy = Fin 1
       else probability_of policy a_max
              = ddiv (dsub (cost_constraint root_example) (cost_value root_example a_min))
                     (dsub (cost_value root_example a_max) (cost_value root_example a_min)) \<and>
            probability_of policy a_min
              = dsub (Fin 1) (ddiv (dsub (cost_constraint root_example) (cost_value root_example a_min))
                                   (dsub (cost_value root_example a_max) (cost_value root_example a_min))) \<and>
            (dle (Fin 0) (ddiv (dsub (cost_constraint root_example) (cost_value root_example a_min))
                               (dsub (cost_value root_example a_max) (cost_value root_example a_min))) \<and>
             dle (ddiv (dsub (cost_constraint root_example) (cost_value root_example a_min))
                       (dsub (cost_value root_example a_max) (cost_value root_example a_min))) (Fin 1)
               \<longrightarrow> policy_sum policy = Fin 1)"
    by blast
  from gp r have pol: "policy = [(0, Fin (1 / 5)), (1, Fin (4 / 5))]" by auto
  from e c have "dle (cost_value root_example a_min) (Fin 0)"
    "dle (Fin 1) (cost_value root_example a_max)"
    by simp_all
  with m c have "a_min = 0" "a_max = 1" by (auto simp add: dle_def)
  with rule c p pol have "policy_sum [(0, Fin (1 / 5)), (1, Fin (4 / 5))] = Fin 1"
    by (simp add: dle_def)
  with o root_example_values root_example_filter r c p show ?thesis by simp
qed

section \<open>Repeated calls of \<open>get_best_action\<close>\<close>

text \<open>
  Claim C3, as the code has it. \<^verbatim>\<open>get_best_action\<close> is \<^verbatim>\<open>greedy_policy(0, filter).first\<close>,
  and the LP step draws from the process-wide random generator in its last case. Let the
  filter return a non-empty list of feasible actions on the UCB values without
  exploration, and let \<open>a_max\<close> and \<open>a_min\<close> be the two feasible actions the LP step picks,
  of largest and smallest cost estimate when no cost estimate of a feasible action is a
  NaN.
  \<^item> If \<open>a_max = a_min\<close> or \<open>cost a_min \<ge> C_max\<close>, \<^verbatim>\<open>get_best_action\<close> returns \<open>a_min\<close> for
    every state of the generator and leaves the generator alone.
  \<^item> Else if \<open>cost a_max \<le> C_max\<close>, it returns \<open>a_max\<close> in the same way.
  \<^item> Otherwise every call draws one sample and returns \<open>a_max\<close> if the sample is at most
    \<open>p = (C_max - cost a_min) / (cost a_max - cost a_min)\<close> and \<open>a_min\<close> if not.
  So of two consecutive calls the second returns the action of the first in the first
  two cases, and in the last case exactly when the two samples lie on the same side of
  \<open>p\<close>. The distribution \<^verbatim>\<open>get_policy\<close> returns is the same for every state of the
  generator.
\<close>

theorem cc_get_best_action_fixed_or_sampled:
  assumes "calculate_ucb_values s (Fin 0) = Inr values"
    and "filter_feasible_actions s values (action_filter_factor s) = Inr feasible_actions"
    and "feasible_actions \<noteq> []"
  shows "\<exists>a_max a_min.
      a_max \<in> set feasible_actions \<and> a_min \<in> set feasible_actions \<and>
      ((\<forall>a \<in> set feasible_actions. \<not> isnan (cost_value s a)) \<longrightarrow>
         (\<forall>a \<in> set feasible_actions.
            dle (cost_value s a_min) (cost_value s a) \<and> dle (cost_value s a) (cost_value s a_max))) \<and>
      (if a_max = a_min \<or> dge (cost_value s a_min) (cost_constraint s)
       then \<forall>g. cc_get_best_action s g = Inr (a_min, g)
       else if dle (cost_value s a_max) (cost_constraint s)
       then \<forall>g. cc_get_best_action s g = Inr (a_max, g)
       else \<forall>g. cc_get_best_action s g
                  = Inr (if dle (Fin (shd g))
                              (ddiv (dsub (cost_constraint s) (cost_value s a_min))
                                    (dsub (cost_value s a_max) (cost_value s a_min)))
                         then a_max else a_min,
                         stl g)) \<and>
      (\<forall>g. \<exists>a1 g1 a2 g2.
         cc_get_best_action s g = Inr (a1, g1) \<and> cc_get_best_action s g1 = Inr (a2, g2) \<and>
         (a1 = a2 \<longleftrightarrow>
            a_max = a_min \<or> dge (cost_value s a_min) (cost_constraint s) \<or>
            dle (cost_value s a_max) (cost_constraint s) \<or>
            dle (Fin (shd g))
                (ddiv (dsub (cost_constraint s) (cost_value s a_min))
                      (dsub (cost_value s a_max) (cost_value s a_min)))
              = dle (Fin (shd (stl g)))
                  (ddiv (dsub (cost_constraint s) (cost_value s a_min))
                        (dsub (cost_value s a_max) (cost_value s a_min))))) \<and>
      (\<exists>policy. \<forall>g. \<exists>g'. cc_get_policy s g = Inr (policy, g'))"
proof -
  let ?cs = "ucb_statistics (cost_statistic s)"
  let ?F = feasible_actions
  note steps = greedy_policy_steps [OF assms(1,2)]
  from solve_LP_and_sample_form [OF assms(3) steps(2)]
  obtain mx mn where mf: "mx \<in> set ?F" "mn \<in> set ?F"
    and ext: "(\<forall>a \<in> set ?F. \<not> isnan (cost_value s a)) \<longrightarrow>
         (\<forall>a \<in> set ?F. dle (cost_value s mn) (cost_value s a) \<and>
                         dle (cost_value s a) (cost_value s mx))"
    and form: "\<forall>g. solve_LP_and_sample s ?F g =
         (if mn = mx \<or> dge (cost_value s mn) (cost_constraint s)
          then Inr ((mn, map_assign mn (Fin 1) (zero_policy ?cs)), g)
          else if dle (cost_value s mx) (cost_constraint s)
          then Inr ((mx, map_assign mx (Fin 1) (zero_policy ?cs)), g)
          else Inr ((if dle (Fin (shd g))
                          (ddiv (dsub (cost_constraint s) (cost_value s mn))
                                (dsub (cost_value s mx) (cost_value s mn)))
                     then mx else mn,
                     map_assign mn
                       (dsub (Fin 1) (ddiv (dsub (cost_constraint s) (cost_value s mn))
                                           (dsub (cost_value s mx) (cost_value s mn))))
                       (map_assign mx (ddiv (dsub (cost_constraint s) (cost_value s mn))
                                            (dsub (cost_value s mx) (cost_value s mn)))
                          (zero_policy ?cs))),
                    stl g))"
    by blast
  let ?p = "ddiv (dsub (cost_constraint s) (cost_value s mn))
                 (dsub (cost_value s mx) (cost_value s mn))"
  have best: "cc_get_best_action s g =
      and_then (solve_LP_and_sample s ?F g) (\<lambda>(sampled, g). Inr (fst sampled, g))" for g
    by (simp add: cc_get_best_action_def steps(1))
  have pol: "cc_get_policy s g =
      and_then (solve_LP_and_sample s ?F g) (\<lambda>(sampled, g). Inr (snd sampled, g))" for g
    by (simp add: cc_get_policy_def steps(1))
  consider (low) "mn = mx \<or> dge (cost_value s mn) (cost_constraint s)"
    | (high) "\<not> (mn = mx \<or> dge (cost_value s mn) (cost_constraint s))"
        "dle (cost_value s mx) (cost_constraint s)"
    | (mixed) "\<not> (mn = mx \<or> dge (cost_value s mn) (cost_constraint s))"
        "\<not> dle (cost_value s mx) (cost_constraint s)"
    by blast
  then have "(if mx = mn \<or> dge (cost_value s mn) (cost_constraint s)
       then \<forall>g. cc_get_best_action s g = Inr (mn, g)
       else if dle (cost_value s mx) (cost_constraint s)
       then \<forall>g. cc_get_best_action s g = Inr (mx, g)
       else \<forall>g. cc_get_best_action s g
                  = Inr (if dle (Fin (shd g)) ?p then mx else mn, stl g)) \<and>
      (\<forall>g. \<exists>a1 g1 a2 g2.
         cc_get_best_action s g = Inr (a1, g1) \<and> cc_get_best_action s g1 = Inr (a2, g2) \<and>
         (a1 = a2 \<longleftrightarrow>
            mx = mn \<or> dge (cost_value s mn) (cost_constraint s) \<or>
            dle (cost_value s mx) (cost_constraint s) \<or>
            dle (Fin (shd g)) ?p = dle (Fin (shd (stl g))) ?p)) \<and>
      (\<exists>policy. \<forall>g. \<exists>g'. cc_get_policy s g = Inr (policy, g'))"
  proof cases
    case low
    with form have b: "\<forall>g. cc_get_best_action s g = Inr (mn, g)"
      and p: "\<forall>g. \<exists>g'. cc_get_policy s g = Inr (map_assign mn (Fin 1) (zero_policy ?cs), g')"
      by (simp_all add: best pol and_then_def)
    from p have "\<exists>policy. \<forall>g. \<exists>g'. cc_get_policy s g = Inr (policy, g')" by blast
    with b low show ?thesis by auto
  next
    case high
    with form have b: "\<forall>g. cc_get_best_action s g = Inr (mx, g)"
      and p: "\<forall>g. \<exists>g'. cc_get_policy s g = Inr (map_assign mx (Fin 1) (zero_policy ?cs), g')"
      by (simp_all add: best pol and_then_def)
    from p have "\<exists>policy. \<forall>g. \<exists>g'. cc_get_policy s g = Inr (policy, g')" by blast
    with b high show ?thesis by auto
  next
    case mixed
    let ?P = "map_assign mn (dsub (Fin 1) ?p) (map_assign mx ?p (zero_policy ?cs))"
    from mixed form
    have b: "\<forall>g. cc_get_best_action s g = Inr (if dle (Fin (shd g)) ?p then mx else mn, stl g)"
      and p: "\<forall>g. \<exists>g'. cc_get_policy s g = Inr (?P, g')"
      by (simp_all add: best pol and_then_def)
    from p have e: "\<exists>policy. \<forall>g. \<exists>g'. cc_get_policy s g = Inr (policy, g')" by blast
    have "\<exists>a1 g1 a2 g2.
         cc_get_best_action s g = Inr (a1, g1) \<and> cc_get_best_action s g1 = Inr (a2, g2) \<and>
         (a1 = a2 \<longleftrightarrow>
            mx = mn \<or> dge (cost_value s mn) (cost_constraint s) \<or>
            dle (cost_value s mx) (cost_constraint s) \<or>
            dle (Fin (shd g)) ?p = dle (Fin (shd (stl g))) ?p)" for g
      using mixed b
      by (intro exI [of _ "if dle (Fin (shd g)) ?p then mx else mn"] exI [of _ "stl g"]
          exI [of _ "if dle (Fin (shd (stl g))) ?p then mx else mn"] exI [of _ "stl (stl g)"])
        auto
    with b e mixed show ?thesis by auto
  qed
  with mf ext show ?thesis by blast
qed

text \<open>
  On the example root the first call draws the sample \<open>0.5\<close> and returns action \<open>1\<close>; the
  second call, on the very same statistic and on the generator as the first call left it,
  draws \<open>0.9\<close> and returns action \<open>0\<close>.
\<close>

theorem cc_get_best_action_twice_differs:
  "cc_get_best_action root_example (1 / 2 ## sconst (9 / 10)) = Inr (1, sconst (9 / 10)) \<and>
   cc_get_best_action root_example (sconst (9 / 10)) = Inr (0, sconst (9 / 10)) \<and>
   (1 :: ActionIdx) \<noteq> 0"
  by (simp add: root_example_best_action)

theorem cc_get_best_action_fixed_or_sampled_witness:
  "calculate_ucb_values root_example (Fin 0) = Inr [Fin (1 / 10), Fin (1 / 10)] \<and>
   filter_feasible_actions root_example [Fin (1 / 10), Fin (1 / 10)]
     (action_filter_factor root_example) = Inr [0, 1] \<and>
   cc_get_best_action root_example (sconst (1 / 2)) = Inr (1, sconst (1 / 2)) \<and>
   (\<exists>policy. \<forall>g. \<exists>g'. cc_get_policy root_example g = Inr (policy, g')) \<and>
   (\<forall>g. cc_get_best_action root_example g = Inr (if shd g \<le> 4 / 5 then 1 else 0, stl g))"
proof -
  have ff: "action_filter_factor root_example = Fin 1" by (simp add: root_example_def)
  have f: "filter_feasible_actions root_example [Fin (1 / 10), Fin (1 / 10)]
     (action_filter_factor root_example) = Inr [0, 1]"
    by (simp only: ff root_example_filter)
  have n: "[0, 1] \<noteq> ([] :: nat list)" by simp
  have r: "cc_get_best_action root_example (sconst (1 / 2)) = Inr (1, sconst (1 / 2))"
    by (simp add: root_example_best_action)
  from cc_get_best_action_fixed_or_sampled [OF root_example_values f n]
  have "\<exists>policy. \<forall>g. \<exists>g'. cc_get_policy root_example g = Inr (policy, g')" by blast
  with root_example_values f r root_example_best_action show ?thesis by blast
qed

section \<open>The lambda adapter\<close>

text \<open>The action the greedy policy selects is an expanded one.\<close>

lemma greedy_policy_selected:
  assumes "greedy_policy s kappa_local factor g = Inr ((a, policy), g')"
  shows "a \<in> set (map_keys (ucb_statistics (cost_statistic s)))"
proof -
  from assms obtain vs F where
    v: "calculate_ucb_values s kappa_local = Inr vs"
    and f: "filter_feasible_actions s vs factor = Inr F"
    by (auto simp add: greedy_policy_def and_then_def split: sum.splits)
  note steps = greedy_policy_steps [OF v f]
  from assms steps(1) have l: "solve_LP_and_sample s F g = Inr ((a, policy), g')" by simp
  then have "F \<noteq> []" by (auto simp add: solve_LP_and_sample_def)
  from solve_LP_and_sample_form [OF this steps(2)]
  obtain mx mn where
    keys: "mx \<in> set (map_keys (ucb_statistics (cost_statistic s)))"
      "mn \<in> set (map_keys (ucb_statistics (cost_statistic s)))"
    and form: "\<forall>g. solve_LP_and_sample s F g =
         (if mn = mx \<or> dge (cost_value s mn) (cost_constraint s)
          then Inr ((mn, map_assign mn (Fin 1) (zero_policy (ucb_statistics (cost_statistic s)))), g)
          else if dle (cost_value s mx) (cost_constraint s)
          then Inr ((mx, map_assign mx (Fin 1) (zero_policy (ucb_statistics (cost_statistic s)))), g)
          else Inr ((if dle (Fin (shd g))
                          (ddiv (dsub (cost_constraint s) (cost_value s mn))
                                (dsub (cost_value s mx) (cost_value s mn)))
                     then mx else mn,
                     map_assign mn
                       (dsub (Fin 1) (ddiv (dsub (cost_constraint s) (cost_value s mn))
                                           (dsub (cost_value s mx) (cost_value s mn))))
                       (map_assign mx (ddiv (dsub (cost_constraint s) (cost_value s mn))
                                            (dsub (cost_value s mx) (cost_value s mn)))
                          (zero_policy (ucb_statistics (cost_statistic s))))),
                    stl g))"
    by blast
  from form [rule_format, of g] l have "a = mx \<or> a = mn"
    by (simp split: if_splits)
  with keys show ?thesis by auto
qed

lemma get_normalized_cost_action_value_eq:
  assumes "a \<in> set (map_keys (ucb_statistics (cost_statistic s)))"
  shows "get_normalized_cost_action_value s a =
     (if dge (ddiv (dsub (cost_value s a) (lower_bound (cost_statistic s)))
                   (dsub (upper_bound (cost_statistic s)) (lower_bound (cost_statistic s))))
             (Fin 0) \<and>
         dle (ddiv (dsub (cost_value s a) (lower_bound (cost_statistic s)))
                   (dsub (upper_bound (cost_statistic s)) (lower_bound (cost_statistic s))))
             (Fin 1)
      then Inr (ddiv (dsub (cost_value s a) (lower_bound (cost_statistic s)))
                     (dsub (upper_bound (cost_statistic s)) (lower_bound (cost_statistic s))))
      else Inl ExpectFailed)"
proof -
  from map_at_member [OF assms] obtain p where
    p: "map_at (ucb_statistics (cost_statistic s)) a = Inr p" by blast
  from p cost_value_at [OF p] show ?thesis
    by (simp add: get_normalized_cost_action_value_def get_normalized_ucb_value_def
        and_then_def Let_def)
qed

text \<open>What the adapter does once the greedy policy has returned.\<close>

lemma update_statistic_parameters_applied:
  assumes "unexpanded_actions root_statistic = []"
    and "greedy_policy root_statistic (Fin 0) (Fin 0) g = Inr ((a_sel, policy), g')"
  shows "update_statistic_parameters parameters root_statistic current_iteration g
     = (if dge (ddiv (dsub (cost_value root_statistic a_sel)
                           (lower_bound (cost_statistic root_statistic)))
                     (dsub (upper_bound (cost_statistic root_statistic))
                           (lower_bound (cost_statistic root_statistic))))
               (Fin 0) \<and>
           dle (ddiv (dsub (cost_value root_statistic a_sel)
                           (lower_bound (cost_statistic root_statistic)))
                     (dsub (upper_bound (cost_statistic root_statistic))
                           (lower_bound (cost_statistic root_statistic))))
               (Fin 1)
        then Inr (parameters
                    \<lparr>LAMBDA :=
                       std_min
                         (std_max
                            (dadd (LAMBDA parameters)
                               (dmul (ddiv (GRADIENT_UPDATE_STEP parameters)
                                           (dadd (dmul (Fin (1 / 10)) (of_u32 current_iteration))
                                                 (Fin 1)))
                                     (dsub (ddiv (dsub (cost_value root_statistic a_sel)
                                                       (lower_bound (cost_statistic root_statistic)))
                                                 (dsub (upper_bound (cost_statistic root_statistic))
                                                       (lower_bound (cost_statistic root_statistic))))
                                           (COST_CONSTRAINT parameters))))
                            (Fin 0))
                         (clip_upper_limit root_statistic (TAU_GRADIENT_CLIP parameters)
                            (DISCOUNT_FACTOR parameters))\<rparr>,
                  g')
        else Inl ExpectFailed)"
  using assms get_normalized_cost_action_value_eq [OF greedy_policy_selected [OF assms(2)]]
  by (simp add: update_statistic_parameters_def calculate_next_lambda_def policy_is_ready_def
      and_then_def Let_def)

text \<open>
  Claim C5. While the root still has unexpanded actions the adapter returns the
  parameters as they are. When the root has none, the adapter throws what the root's
  \<^verbatim>\<open>greedy_policy(0, 0)\<close> throws; when that returns with the selected action \<open>a_sel\<close>, the
  normalised cost of \<open>a_sel\<close> is
  \<open>(cost a_sel - lower_bound) / (upper_bound - lower_bound)\<close> over the bounds of the cost
  statistic, and unless that fails the expectation \<open>0 \<le> normalized_cost \<le> 1\<close> the adapter
  stores \<open>LAMBDA + (GRADIENT_UPDATE_STEP / (0.1 * iteration + 1)) * (normalized_cost -
  COST_CONSTRAINT)\<close>, clipped from below at \<open>0\<close> and then from above at the clip limit, and
  changes no other parameter.
\<close>

theorem update_statistic_parameters_step:
  "(unexpanded_actions root_statistic \<noteq> [] \<longrightarrow>
      update_statistic_parameters parameters root_statistic current_iteration g
        = Inr (parameters, g)) \<and>
   (unexpanded_actions root_statistic = [] \<longrightarrow>
      (\<forall>e. greedy_policy root_statistic (Fin 0) (Fin 0) g = Inl e \<longrightarrow>
           update_statistic_parameters parameters root_statistic current_iteration g = Inl e) \<and>
      (\<forall>a_sel policy g'.
         greedy_policy root_statistic (Fin 0) (Fin 0) g = Inr ((a_sel, policy), g') \<longrightarrow>
         (let normalized_cost =
                ddiv (dsub (cost_value root_statistic a_sel)
                           (lower_bound (cost_statistic root_statistic)))
                     (dsub (upper_bound (cost_statistic root_statistic))
                           (lower_bound (cost_statistic root_statistic)));
              step = ddiv (GRADIENT_UPDATE_STEP parameters)
                          (dadd (dmul (Fin (1 / 10)) (of_u32 current_iteration)) (Fin 1));
              new_lambda = dadd (LAMBDA parameters)
                                (dmul step (dsub normalized_cost (COST_CONSTRAINT parameters)))
          in update_statistic_parameters parameters root_statistic current_iteration g
               = (if dge normalized_cost (Fin 0) \<and> dle normalized_cost (Fin 1)
                  then Inr (parameters
                              \<lparr>LAMBDA :=
                                 std_min (std_max new_lambda (Fin 0))
                                   (clip_upper_limit root_statistic (TAU_GRADIENT_CLIP parameters)
                                      (DISCOUNT_FACTOR parameters))\<rparr>,
                            g')
                  else Inl ExpectFailed))))"
proof (intro conjI impI allI)
  assume "unexpanded_actions root_statistic \<noteq> []"
  then show "update_statistic_parameters parameters root_statistic current_iteration g
        = Inr (parameters, g)"
    by (simp add: update_statistic_parameters_def policy_is_ready_def)
next
  fix e
  assume "unexpanded_actions root_statistic = []"
    and "greedy_policy root_statistic (Fin 0) (Fin 0) g = Inl e"
  then show "update_statistic_parameters parameters root_statistic current_iteration g = Inl e"
    by (simp add: update_statistic_parameters_def calculate_next_lambda_def policy_is_ready_def
        and_then_def Let_def)
next
  fix a_sel policy g'
  assume ready: "unexpanded_actions root_statistic = []"
    and gp: "greedy_policy root_statistic (Fin 0) (Fin 0) g = Inr ((a_sel, policy), g')"
  show "let normalized_cost =
                ddiv (dsub (cost_value root_statistic a_sel)
                           (lower_bound (cost_statistic root_statistic)))
                     (dsub (upper_bound (cost_statistic root_statistic))
                           (lower_bound (cost_statistic root_statistic)));
              step = ddiv (GRADIENT_UPDATE_STEP parameters)
                          (dadd (dmul (Fin (1 / 10)) (of_u32 current_iteration)) (Fin 1));
              new_lambda = dadd (LAMBDA parameters)
                                (dmul step (dsub normalized_cost (COST_CONSTRAINT parameters)))
          in update_statistic_parameters parameters root_statistic current_iteration g
               = (if dge normalized_cost (Fin 0) \<and> dle normalized_cost (Fin 1)
                  then Inr (parameters
                              \<lparr>LAMBDA :=
                                 std_min (std_max new_lambda (Fin 0))
                                   (clip_upper_limit root_statistic (TAU_GRADIENT_CLIP parameters)
                                      (DISCOUNT_FACTOR parameters))\<rparr>,
                            g')
                  else Inl ExpectFailed)"
    using update_statistic_parameters_applied [OF ready gp, of parameters current_iteration]
    by (simp add: Let_def)
qed


theorem update_statistic_parameters_step_witness:
  "unexpanded_actions leaf_example \<noteq> [] \<and>
   update_statistic_parameters test_parameters leaf_example 10 (sconst (1 / 2))
     = Inr (test_parameters, sconst (1 / 2)) \<and>
   unexpanded_actions adapter_example = [] \<and>
   greedy_policy adapter_example (Fin 0) (Fin 0) (sconst (1 / 2))
     = Inr ((0, [(0, Fin 1), (1, Fin 0)]), sconst (1 / 2)) \<and>
   cost_value adapter_example 0 = Fin (1 / 4) \<and>
   ddiv (dsub (Fin (1 / 4)) (lower_bound (cost_statistic adapter_example)))
        (dsub (upper_bound (cost_statistic adapter_example))
              (lower_bound (cost_statistic adapter_example))) = Fin (1 / 4) \<and>
   update_statistic_parameters adapter_parameters adapter_example 10 (sconst (1 / 2))
     = Inr (adapter_parameters\<lparr>LAMBDA := Fin (189 / 400)\<rparr>, sconst (1 / 2))"
proof -
  have u: "unexpanded_actions leaf_example \<noteq> []" "unexpanded_actions adapter_example = []"
    by (simp_all add: leaf_example_def CostConstrainedStatistic_init_def adapter_example_def upt_rec)
  have c: "cost_value adapter_example 0 = Fin (1 / 4)"
    "lower_bound (cost_statistic adapter_example) = Fin 0"
    "upper_bound (cost_statistic adapter_example) = Fin 1"
    "upper_bound (reward_statistic adapter_example) = Fin 2"
    "lower_bound (reward_statistic adapter_example) = Fin 0"
    by (simp_all add: adapter_example_def cost_value_def map_subscript_def)
  have n: "ddiv (dsub (Fin (1 / 4)) (lower_bound (cost_statistic adapter_example)))
        (dsub (upper_bound (cost_statistic adapter_example))
              (lower_bound (cost_statistic adapter_example))) = Fin (1 / 4)"
    by (simp add: c double_arith)
  note adapter = update_statistic_parameters_step
  from adapter [of leaf_example test_parameters 10 "sconst (1 / 2)"] u(1)
  have skip: "update_statistic_parameters test_parameters leaf_example 10 (sconst (1 / 2))
     = Inr (test_parameters, sconst (1 / 2))"
    by blast
  from adapter [of adapter_example adapter_parameters 10 "sconst (1 / 2)"] u(2)
    adapter_example_greedy [of "sconst (1 / 2)"]
  have "let normalized_cost =
                ddiv (dsub (cost_value adapter_example 0)
                           (lower_bound (cost_statistic adapter_example)))
                     (dsub (upper_bound (cost_statistic adapter_example))
                           (lower_bound (cost_statistic adapter_example)));
              step = ddiv (GRADIENT_UPDATE_STEP adapter_parameters)
                          (dadd (dmul (Fin (1 / 10)) (of_u32 10)) (Fin 1));
              new_lambda = dadd (LAMBDA adapter_parameters)
                                (dmul step (dsub normalized_cost (COST_CONSTRAINT adapter_parameters)))
          in update_statistic_parameters adapter_parameters adapter_example 10 (sconst (1 / 2))
               = (if dge normalized_cost (Fin 0) \<and> dle normalized_cost (Fin 1)
                  then Inr (adapter_parameters
                              \<lparr>LAMBDA :=
                                 std_min (std_max new_lambda (Fin 0))
                                   (clip_upper_limit adapter_example (TAU_GRADIENT_CLIP adapter_parameters)
                                      (DISCOUNT_FACTOR adapter_parameters))\<rparr>,
                            sconst (1 / 2))
                  else Inl ExpectFailed)"
    by blast
  then have "update_statistic_parameters adapter_parameters adapter_example 10 (sconst (1 / 2))
     = Inr (adapter_parameters\<lparr>LAMBDA := Fin (189 / 400)\<rparr>, sconst (1 / 2))"
    by (simp add: c adapter_parameters_def test_parameters_def clip_upper_limit_def
        std_min_def std_max_def of_u32_def Let_def double_arith)
  with u skip adapter_example_greedy c(1) n show ?thesis by simp
qed

section \<open>The interval of lambda\<close>

text \<open>Clipping a number that is not a NaN against a limit that is not negative.\<close>

lemma clip_bounds:
  assumes "\<not> isnan x" and "dle (Fin 0) limit"
  shows "dle (Fin 0) (std_min (std_max x (Fin 0)) limit)"
    and "dle (std_min (std_max x (Fin 0)) limit) limit"
proof -
  let ?m = "std_max x (Fin 0)"
  have m: "dle (Fin 0) ?m"
  proof (cases "dlt x (Fin 0)")
    case True
    then show ?thesis by (simp add: std_max_def dle_def)
  next
    case False
    with assms(1) have "dle (Fin 0) x" by (simp add: not_dlt_iff)
    with False show ?thesis by (simp add: std_max_def)
  qed
  from m have nm: "\<not> isnan ?m" by (simp add: dle_not_nan)
  from assms(2) have nl: "\<not> isnan limit" by (simp add: dle_not_nan)
  show "dle (Fin 0) (std_min ?m limit)"
    using m assms(2) by (simp add: std_min_def)
  show "dle (std_min ?m limit) limit"
  proof (cases "dlt limit ?m")
    case True
    with nl show ?thesis by (simp add: std_min_def dle_refl)
  next
    case False
    with nl nm have "dle ?m limit" by (simp add: not_dlt_iff)
    with False show ?thesis by (simp add: std_min_def)
  qed
qed

text \<open>With finite parameters the value before clipping is not a NaN.\<close>

lemma dadd_finite:
  assumes "isfinite a" and "isfinite b" and "\<bar>val a + val b\<bar> < overflow_limit"
  shows "isfinite (dadd a b)"
proof -
  from assms(1,2) have n: "\<not> isnan a" "\<not> isnan b" "\<not> isinf a" "\<not> isinf b"
    by (cases a; cases b; simp)+
  from assms(3) have "overflow (val a + val b) = Fin (val a + val b)"
    by (rule overflow_Fin)
  with n assms(1,2) show ?thesis by (simp add: dadd_def)
qed

lemma of_u32_cases: "\<exists>r. of_u32 n = Fin r \<and> 0 \<le> r \<and> r < 2 ^ 32"
proof -
  have "unat n < 2 ^ 32" using unsigned_less [of n] by simp
  then have "real (unat n) < real (2 ^ 32)" by (simp only: of_nat_less_iff)
  then have "real (unat n) < 2 ^ 32" by simp
  moreover have "0 \<le> real (unat n)" by (rule of_nat_0_le_iff)
  ultimately show ?thesis unfolding of_u32_def by blast
qed

lemma iteration_term:
  "\<exists>d. dadd (dmul (Fin (1 / 10)) (of_u32 i)) (Fin 1) = Fin d \<and> 1 \<le> d"
proof -
  from of_u32_cases [of i] obtain r where r: "of_u32 i = Fin r" "0 \<le> r" "r < 2 ^ 32" by blast
  from r have "\<bar>1 / 10 * r\<bar> < 2 ^ 65" by simp
  from dmul_Fin [OF this] r have m: "dmul (Fin (1 / 10)) (Fin r) = Fin (r / 10)"
    by (auto simp add: zero_of_def)
  from r have "\<bar>r / 10\<bar> < 2 ^ 64" by simp
  from dadd_Fin [OF this, of 1] have "dadd (Fin (r / 10)) (Fin 1) = Fin (r / 10 + 1)"
    by simp
  with m r show ?thesis by simp
qed

lemma step_finite:
  assumes "finite_double step0"
  shows "isfinite (ddiv step0 (dadd (dmul (Fin (1 / 10)) (of_u32 i)) (Fin 1)))"
proof -
  from iteration_term [of i] obtain d where
    d: "dadd (dmul (Fin (1 / 10)) (of_u32 i)) (Fin 1) = Fin d" "1 \<le> d" by blast
  from assms have f: "isfinite step0" and b: "\<bar>val step0\<bar> \<le> DBL_MAX"
    by (simp_all add: finite_double_def)
  from d(2) have "\<bar>val step0\<bar> / d \<le> \<bar>val step0\<bar> / 1"
    by (intro divide_left_mono) simp_all
  with d(2) have "\<bar>val step0 / d\<bar> \<le> \<bar>val step0\<bar>" by (simp add: abs_divide)
  with b small_bounds(3) have "\<bar>val step0 / d\<bar> < overflow_limit" by linarith
  then have "overflow (val step0 / d) = Fin (val step0 / d)"
    by (rule overflow_Fin)
  with f d(2) show ?thesis
    by (cases step0) (simp_all add: d(1) ddiv_def zero_of_def)
qed

lemma gradient_finite:
  assumes "dle (Fin 0) nc" and "dle nc (Fin 1)" and "finite_double c"
  shows "isfinite (dsub nc c)"
proof -
  note n = dle_zero_finite [OF assms(1,2)]
  from assms(3) have c: "isfinite c" "\<bar>val c\<bar> \<le> DBL_MAX" by (simp_all add: finite_double_def)
  from c(1) have nc: "isfinite (dneg c)" "val (dneg c) = - val c" by (cases c; simp)+
  have "(1 :: real) < absorption_limit" by (simp add: absorption_limit_def)
  with n c(2) small_bounds(7) have "\<bar>val nc + val (dneg c)\<bar> < overflow_limit"
    unfolding nc(2) by linarith
  from dadd_finite [OF _ nc(1) this] n show ?thesis by (simp add: dsub_def)
qed

text \<open>
  Claim C4, as the code has it. When the root has no unexpanded action and the adapter
  returns, the lambda it stores is at least \<open>0\<close> and at most the clip limit
  \<open>(REWARD_UPPER_BOUND - REWARD_LOWER_BOUND) / (TAU_GRADIENT_CLIP * (1 - DISCOUNT_FACTOR))\<close>,
  provided that limit is not negative and not a NaN, the parameters \<open>LAMBDA\<close>,
  \<open>GRADIENT_UPDATE_STEP\<close> and \<open>COST_CONSTRAINT\<close> are finite, and the reward bounds of the
  root are those of the parameters, as the constructor sets them. The limit is the
  quotient of doubles: for the discount factor \<open>1\<close> and a positive
  \<open>TAU_GRADIENT_CLIP\<close> it is \<open>+\<infinity>\<close>, and lambda is clipped from below only.
\<close>

theorem lambda_is_clipped:
  assumes "unexpanded_actions root_statistic = []"
    and "update_statistic_parameters parameters root_statistic current_iteration g
           = Inr (parameters', g')"
    and "upper_bound (reward_statistic root_statistic) = REWARD_UPPER_BOUND parameters"
    and "lower_bound (reward_statistic root_statistic) = REWARD_LOWER_BOUND parameters"
    and "finite_double (LAMBDA parameters)"
    and "finite_double (GRADIENT_UPDATE_STEP parameters)"
    and "finite_double (COST_CONSTRAINT parameters)"
    and "dle (Fin 0)
           (ddiv (dsub (REWARD_UPPER_BOUND parameters) (REWARD_LOWER_BOUND parameters))
                 (dmul (TAU_GRADIENT_CLIP parameters) (dsub (Fin 1) (DISCOUNT_FACTOR parameters))))"
  shows "dle (Fin 0) (LAMBDA parameters') \<and>
         dle (LAMBDA parameters')
           (ddiv (dsub (REWARD_UPPER_BOUND parameters) (REWARD_LOWER_BOUND parameters))
                 (dmul (TAU_GRADIENT_CLIP parameters) (dsub (Fin 1) (DISCOUNT_FACTOR parameters))))"
proof -
  let ?limit = "ddiv (dsub (REWARD_UPPER_BOUND parameters) (REWARD_LOWER_BOUND parameters))
                 (dmul (TAU_GRADIENT_CLIP parameters) (dsub (Fin 1) (DISCOUNT_FACTOR parameters)))"
  let ?step = "ddiv (GRADIENT_UPDATE_STEP parameters)
                    (dadd (dmul (Fin (1 / 10)) (of_u32 current_iteration)) (Fin 1))"
  from assms(1,2) obtain sampled nc where
    nc: "get_normalized_cost_action_value root_statistic (fst sampled) = Inr nc"
    and l: "LAMBDA parameters' =
         std_min (std_max (dadd (LAMBDA parameters)
                                (dmul ?step (dsub nc (COST_CONSTRAINT parameters))))
                          (Fin 0))
                 (clip_upper_limit root_statistic (TAU_GRADIENT_CLIP parameters)
                    (DISCOUNT_FACTOR parameters))"
    by (auto simp add: update_statistic_parameters_def calculate_next_lambda_def
        policy_is_ready_def and_then_def Let_def split: sum.splits)
  from nc have range: "dle (Fin 0) nc" "dle nc (Fin 1)"
    by (auto simp add: get_normalized_cost_action_value_def get_normalized_ucb_value_def
        and_then_def Let_def split: sum.splits if_splits)
  have lim: "clip_upper_limit root_statistic (TAU_GRADIENT_CLIP parameters)
                    (DISCOUNT_FACTOR parameters) = ?limit"
    by (simp add: clip_upper_limit_def assms(3,4))
  from assms(5) have lf: "isfinite (LAMBDA parameters)" by (simp add: finite_double_def)
  from dmul_finite_not_nan [OF step_finite [OF assms(6)] gradient_finite [OF range assms(7)]]
  have "\<not> isnan (dmul ?step (dsub nc (COST_CONSTRAINT parameters)))" .
  from dadd_finite_not_nan [OF lf this]
  have "\<not> isnan (dadd (LAMBDA parameters) (dmul ?step (dsub nc (COST_CONSTRAINT parameters))))" .
  from clip_bounds [OF this assms(8)] l lim show ?thesis by simp
qed



lemma root_example_adapter:
  "update_statistic_parameters test_parameters root_example 0 (sconst (1 / 2))
     = Inr (test_parameters\<lparr>LAMBDA := Fin 0\<rparr>, sconst (1 / 2))"
proof -
  have u: "unexpanded_actions root_example = []" by (simp add: root_example_def)
  have g: "greedy_policy root_example (Fin 0) (Fin 0) (sconst (1 / 2))
             = Inr ((1, [(0, Fin (1 / 5)), (1, Fin (4 / 5))]), sconst (1 / 2))"
    using root_example_greedy_0 [of "sconst (1 / 2)"] by simp
  have c: "cost_value root_example (Suc 0) = Fin 1"
    "lower_bound (cost_statistic root_example) = Fin 0"
    "upper_bound (cost_statistic root_example) = Fin 1"
    "upper_bound (reward_statistic root_example) = Fin 2"
    "lower_bound (reward_statistic root_example) = Fin 0"
    by (simp_all add: root_example_def cost_value_def map_subscript_def)
  show ?thesis
    unfolding update_statistic_parameters_applied [OF u g]
    by (simp add: c test_parameters_def clip_upper_limit_def
        std_min_def std_max_def of_u32_def double_arith)
qed

lemma adapter_example_adapter:
  "update_statistic_parameters (adapter_parameters\<lparr>DISCOUNT_FACTOR := Fin 1\<rparr>)
       adapter_example 10 (sconst (1 / 2))
     = Inr (adapter_parameters\<lparr>DISCOUNT_FACTOR := Fin 1, LAMBDA := Fin (189 / 400)\<rparr>,
            sconst (1 / 2))"
proof -
  have u: "unexpanded_actions adapter_example = []" by (simp add: adapter_example_def)
  have c: "cost_value adapter_example 0 = Fin (1 / 4)"
    "lower_bound (cost_statistic adapter_example) = Fin 0"
    "upper_bound (cost_statistic adapter_example) = Fin 1"
    "upper_bound (reward_statistic adapter_example) = Fin 2"
    "lower_bound (reward_statistic adapter_example) = Fin 0"
    by (simp_all add: adapter_example_def cost_value_def map_subscript_def)
  have l: "clip_upper_limit adapter_example (Fin 1) (Fin 1) = PInf"
    by (simp add: clip_upper_limit_def c dsub_Fin dmul_Fin zero_of_def ddiv_def inf_of_def)
  show ?thesis
    unfolding update_statistic_parameters_applied [OF u adapter_example_greedy]
    by (simp add: c l adapter_parameters_def test_parameters_def
        std_min_def std_max_def of_u32_def double_arith)
qed

text \<open>
  Under the test's parameters lambda starts at \<open>- 0.1\<close>. The adapter runs on a root that
  still has unexpanded actions, returns, and the stored lambda is still \<open>- 0.1\<close>, which is
  not in \<open>[0, 20]\<close>.
\<close>

theorem lambda_unclipped_while_expanding:
  "update_statistic_parameters test_parameters leaf_example 0 (sconst 0)
     = Inr (test_parameters, sconst 0) \<and>
   LAMBDA test_parameters = Fin (- (1 / 10)) \<and>
   ddiv (dsub (REWARD_UPPER_BOUND test_parameters) (REWARD_LOWER_BOUND test_parameters))
        (dmul (TAU_GRADIENT_CLIP test_parameters) (dsub (Fin 1) (DISCOUNT_FACTOR test_parameters)))
     = Fin 20 \<and>
   \<not> dle (Fin 0) (LAMBDA test_parameters)"
  by (simp add: update_statistic_parameters_def policy_is_ready_def leaf_example_def
      CostConstrainedStatistic_init_def test_parameters_def upt_rec double_arith)

theorem lambda_is_clipped_witness:
  "unexpanded_actions root_example = [] \<and>
   update_statistic_parameters test_parameters root_example 0 (sconst (1 / 2))
     = Inr (test_parameters\<lparr>LAMBDA := Fin 0\<rparr>, sconst (1 / 2)) \<and>
   finite_double (LAMBDA test_parameters) \<and>
   finite_double (GRADIENT_UPDATE_STEP test_parameters) \<and>
   finite_double (COST_CONSTRAINT test_parameters) \<and>
   ddiv (dsub (REWARD_UPPER_BOUND test_parameters) (REWARD_LOWER_BOUND test_parameters))
        (dmul (TAU_GRADIENT_CLIP test_parameters) (dsub (Fin 1) (DISCOUNT_FACTOR test_parameters)))
     = Fin 20 \<and>
   dle (Fin 0) (Fin 0) \<and> dle (Fin 0) (Fin 20) \<and>
   unexpanded_actions adapter_example = [] \<and>
   update_statistic_parameters (adapter_parameters\<lparr>DISCOUNT_FACTOR := Fin 1\<rparr>)
       adapter_example 10 (sconst (1 / 2))
     = Inr (adapter_parameters\<lparr>DISCOUNT_FACTOR := Fin 1, LAMBDA := Fin (189 / 400)\<rparr>,
            sconst (1 / 2)) \<and>
   ddiv (dsub (REWARD_UPPER_BOUND (adapter_parameters\<lparr>DISCOUNT_FACTOR := Fin 1\<rparr>))
              (REWARD_LOWER_BOUND (adapter_parameters\<lparr>DISCOUNT_FACTOR := Fin 1\<rparr>)))
        (dmul (TAU_GRADIENT_CLIP (adapter_parameters\<lparr>DISCOUNT_FACTOR := Fin 1\<rparr>))
              (dsub (Fin 1) (DISCOUNT_FACTOR (adapter_parameters\<lparr>DISCOUNT_FACTOR := Fin 1\<rparr>))))
     = PInf \<and>
   dle (Fin 0) (Fin (189 / 400)) \<and> dle (Fin (189 / 400)) PInf"
proof -
  let ?P = "adapter_parameters\<lparr>DISCOUNT_FACTOR := Fin 1\<rparr>"
  have u: "unexpanded_actions root_example = []" "unexpanded_actions adapter_example = []"
    by (simp_all add: root_example_def adapter_example_def)
  have b: "upper_bound (reward_statistic root_example) = REWARD_UPPER_BOUND test_parameters"
    "lower_bound (reward_statistic root_example) = REWARD_LOWER_BOUND test_parameters"
    "upper_bound (reward_statistic adapter_example) = REWARD_UPPER_BOUND ?P"
    "lower_bound (reward_statistic adapter_example) = REWARD_LOWER_BOUND ?P"
    by (simp_all add: root_example_def adapter_example_def adapter_parameters_def
        test_parameters_def)
  have f: "finite_double (LAMBDA test_parameters)"
    "finite_double (GRADIENT_UPDATE_STEP test_parameters)"
    "finite_double (COST_CONSTRAINT test_parameters)"
    "finite_double (LAMBDA ?P)" "finite_double (GRADIENT_UPDATE_STEP ?P)"
    "finite_double (COST_CONSTRAINT ?P)"
    using small_bounds(1)
    by (simp_all add: finite_double_def adapter_parameters_def test_parameters_def)
  have l1: "ddiv (dsub (REWARD_UPPER_BOUND test_parameters) (REWARD_LOWER_BOUND test_parameters))
        (dmul (TAU_GRADIENT_CLIP test_parameters) (dsub (Fin 1) (DISCOUNT_FACTOR test_parameters)))
     = Fin 20"
    by (simp add: test_parameters_def double_arith)
  have l2: "ddiv (dsub (REWARD_UPPER_BOUND ?P) (REWARD_LOWER_BOUND ?P))
        (dmul (TAU_GRADIENT_CLIP ?P) (dsub (Fin 1) (DISCOUNT_FACTOR ?P))) = PInf"
    by (simp add: adapter_parameters_def test_parameters_def dsub_Fin dmul_Fin
        zero_of_def ddiv_def inf_of_def)
  note l = l1 l2
  have n: "dle (Fin 0)
      (ddiv (dsub (REWARD_UPPER_BOUND test_parameters) (REWARD_LOWER_BOUND test_parameters))
        (dmul (TAU_GRADIENT_CLIP test_parameters) (dsub (Fin 1) (DISCOUNT_FACTOR test_parameters))))"
    "dle (Fin 0) (ddiv (dsub (REWARD_UPPER_BOUND ?P) (REWARD_LOWER_BOUND ?P))
        (dmul (TAU_GRADIENT_CLIP ?P) (dsub (Fin 1) (DISCOUNT_FACTOR ?P))))"
    unfolding l by (simp_all add: dle_def)
  from lambda_is_clipped [OF u(1) root_example_adapter b(1,2) f(1,2,3) n(1)]
  have one: "dle (Fin 0) (Fin 0) \<and> dle (Fin 0) (Fin 20)"
    unfolding l by simp
  from lambda_is_clipped [OF u(2) adapter_example_adapter b(3,4) f(4,5,6) n(2)]
  have two: "dle (Fin 0) (Fin (189 / 400)) \<and> dle (Fin (189 / 400)) PInf"
    unfolding l by simp
  from u root_example_adapter adapter_example_adapter f(1,2,3) l one two show ?thesis
    by simp
qed

section \<open>The example roots are reachable\<close>

text \<open>
  The example roots are what the updates of the backpropagation phase make of a fresh
  node. \<^verbatim>\<open>choose_next_action\<close>, which is not modelled, has emptied the list of unexpanded
  actions by then.
\<close>

lemmas update_defs =
  cc_update_statistic_def cc_update_from_heuristic_def cc_set_heuristic_estimate_def
  set_heuristic_estimate_from_backpropagated_def
  update_statistics_from_backpropagated_def update_from_heuristic_from_backpropagated_def
  CostConstrainedStatistic_init_def UctStatistic_init_def
  make_reward_statistic_parameters_def make_cost_statistic_parameters_def
  map_subscript_def UcbPair_init_def of_u32_def Let_def upt_rec

lemma root_example_reachable:
  "run root_steps (CostConstrainedStatistic_init (0, Fin 0) 2 test_parameters)
     = root_example\<lparr>unexpanded_actions := [0, 1]\<rparr>"
  by (simp add: root_steps_def root_example_def zero_leaf_def leaf_example_def
      test_parameters_def update_defs double_arith)

lemma single_example_reachable:
  "run single_steps (CostConstrainedStatistic_init (0, Fin 0) 1 test_parameters)
     = single_example\<lparr>unexpanded_actions := [0]\<rparr>"
  by (simp add: single_steps_def single_example_def zero_leaf_def leaf_example_def
      test_parameters_def update_defs double_arith)

lemma adapter_example_reachable:
  "run adapter_steps (CostConstrainedStatistic_init (0, Fin 0) 2 adapter_parameters)
     = adapter_example\<lparr>unexpanded_actions := [0, 1]\<rparr>"
  by (simp add: adapter_steps_def adapter_example_def zero_leaf_def leaf_example_def
      adapter_parameters_def test_parameters_def update_defs double_arith)


end
